theory Spec2Isabelle
  imports Main "HOL-Library.Word"
begin

unbundle bit_operations_syntax

section \<open>The arena: a byte store and 64-bit words in it\<close>

text \<open>
  \<^verbatim>\<open>mm.c\<close> is a 64-bit allocator: \<^verbatim>\<open>word_t\<close> is \<^verbatim>\<open>uint64_t\<close>, \<^verbatim>\<open>size_t\<close> is 64 bits wide and a
  \<^verbatim>\<open>block_t *\<close> is a byte address. All three are \<open>64 word\<close> here, so that every sum and
  product of the source wraps modulo \<open>2 ^ 64\<close> as it does in C. The arena is a store of
  bytes; a header, a footer or a list link is the eight bytes at its address, least
  significant byte first. A parameter or local that the source calls \<^verbatim>\<open>size\<close> is \<open>sz\<close>
  here.
\<close>

type_synonym word_t = "64 word"
type_synonym addr = "64 word"
type_synonym heap = "addr \<Rightarrow> 8 word"

definition byte_of :: "word_t \<Rightarrow> nat \<Rightarrow> 8 word" where
  "byte_of w i = ucast (drop_bit (8 * i) w)"

definition load64 :: "heap \<Rightarrow> addr \<Rightarrow> word_t" where
  "load64 m a =
     ucast (m a) OR push_bit 8 (ucast (m (a + 1))) OR push_bit 16 (ucast (m (a + 2)))
     OR push_bit 24 (ucast (m (a + 3))) OR push_bit 32 (ucast (m (a + 4)))
     OR push_bit 40 (ucast (m (a + 5))) OR push_bit 48 (ucast (m (a + 6)))
     OR push_bit 56 (ucast (m (a + 7)))"

definition store64 :: "heap \<Rightarrow> addr \<Rightarrow> word_t \<Rightarrow> heap" where
  "store64 m a w = (\<lambda>x. if x - a < 8 then byte_of w (unat (x - a)) else m x)"

text \<open>
  The allocator's globals (\<^verbatim>\<open>heap_start\<close>, \<^verbatim>\<open>segregated_free_list[15]\<close>) and the arena of
  \<^verbatim>\<open>memlib\<close>: its bytes, its first byte, its break and its last admissible break.
\<close>

record state =
  mem :: heap
  heap_start :: addr
  segregated_free_list :: "nat \<Rightarrow> addr"
  mem_start_brk :: addr
  mem_brk :: addr
  mem_max_addr :: addr

text \<open>
  Modelled from the spec: \<^verbatim>\<open>memlib.c\<close> is not among the sources. The arena capability is
  \<^verbatim>\<open>extend(n) -> base_of_new_region | failure\<close>, \<^verbatim>\<open>lo()\<close> and \<^verbatim>\<open>hi()\<close> with inclusive byte
  bounds. \<open>mem_sbrk\<close> refuses (\<open>None\<close>, the source's \<^verbatim>\<open>(void *)-1\<close>) a negative increment and
  one that would pass the arena's limit, and changes nothing then; otherwise it returns the
  old break and moves the break up.
\<close>

definition mem_sbrk :: "state \<Rightarrow> word_t \<Rightarrow> (addr \<times> state) option" where
  "mem_sbrk s incr =
     (if incr <s 0 \<or> unat (mem_max_addr s) < unat (mem_brk s) + unat incr then None
      else Some (mem_brk s, s\<lparr>mem_brk := mem_brk s + incr\<rparr>))"

definition mem_heap_lo :: "state \<Rightarrow> addr" where
  "mem_heap_lo s = mem_start_brk s"

definition mem_heap_hi :: "state \<Rightarrow> addr" where
  "mem_heap_hi s = mem_brk s - 1"

text \<open>
  Modelled from the spec: \<^verbatim>\<open>memset\<close> and \<^verbatim>\<open>memcpy\<close> (the C library's, or \<^verbatim>\<open>mem_memset\<close>
  and \<^verbatim>\<open>mem_memcpy\<close> of \<^verbatim>\<open>memlib.c\<close> under \<^verbatim>\<open>DRIVER\<close>) are not among the sources. The
  arena capability has \<^verbatim>\<open>memcpy\<close>/\<^verbatim>\<open>memset\<close> primitives that the arena permits over its bytes,
  the bytes from \<^verbatim>\<open>lo()\<close> to \<^verbatim>\<open>hi()\<close>. A call whose \<open>n\<close> bytes from \<open>p\<close> on do not all lie
  there is a fault of the program: the result is \<open>None\<close> and no state is left.
\<close>

definition in_arena :: "state \<Rightarrow> addr \<Rightarrow> word_t \<Rightarrow> bool" where
  "in_arena s p n = (unat (mem_start_brk s) \<le> unat p \<and> unat p + unat n \<le> unat (mem_brk s))"

definition memset :: "state \<Rightarrow> addr \<Rightarrow> 8 word \<Rightarrow> word_t \<Rightarrow> state option" where
  "memset s p c n =
     (if in_arena s p n then Some (s\<lparr>mem := (\<lambda>x. if x - p < n then c else mem s x)\<rparr>)
      else None)"

definition memcpy :: "state \<Rightarrow> addr \<Rightarrow> addr \<Rightarrow> word_t \<Rightarrow> state option" where
  "memcpy s dst src n =
     (if in_arena s dst n \<and> in_arena s src n
      then Some (s\<lparr>mem := (\<lambda>x. if x - dst < n then mem s (src + (x - dst)) else mem s x)\<rparr>)
      else None)"

section \<open>Constants and short helper functions\<close>

definition SEG_LIST_NUM :: nat where "SEG_LIST_NUM = 15"
definition SEARCH_LIMIT :: nat where "SEARCH_LIMIT = 10"
definition CLOSE_ENOUGH :: word_t where "CLOSE_ENOUGH = 46"

definition s_list_mini :: word_t where "s_list_mini = 32"
definition s_list_1 :: word_t where "s_list_1 = 64"
definition s_list_2 :: word_t where "s_list_2 = 128"
definition s_list_3 :: word_t where "s_list_3 = 256"
definition s_list_4 :: word_t where "s_list_4 = 512"
definition s_list_5 :: word_t where "s_list_5 = 1024"
definition s_list_6 :: word_t where "s_list_6 = 2048"
definition s_list_7 :: word_t where "s_list_7 = 4096"
definition s_list_8 :: word_t where "s_list_8 = 8192"
definition s_list_9 :: word_t where "s_list_9 = 16384"
definition s_list_10 :: word_t where "s_list_10 = 32768"
definition s_list_11 :: word_t where "s_list_11 = 65536"
definition s_list_12 :: word_t where "s_list_12 = 131072"
definition s_list_13 :: word_t where "s_list_13 = 262144"

definition wsize :: word_t where "wsize = 8"
definition dsize :: word_t where "dsize = 2 * wsize"
definition min_block_size :: word_t where "min_block_size = dsize"
definition chunksize :: word_t where "chunksize = push_bit 11 1"

definition alloc_mask :: word_t where "alloc_mask = 0x1"
definition prev_alloc_mask :: word_t where "prev_alloc_mask = 0x2"
definition prev_mini_mask :: word_t where "prev_mini_mask = 0x4"
definition size_mask :: word_t where "size_mask = NOT 0xF"

definition SIZE_MAX :: word_t where "SIZE_MAX = 18446744073709551615"

definition NULL :: addr where "NULL = 0"

lemmas mm_consts =
  SEG_LIST_NUM_def SEARCH_LIMIT_def CLOSE_ENOUGH_def s_list_mini_def s_list_1_def
  s_list_2_def s_list_3_def s_list_4_def s_list_5_def s_list_6_def s_list_7_def
  s_list_8_def s_list_9_def s_list_10_def s_list_11_def s_list_12_def s_list_13_def
  wsize_def dsize_def min_block_size_def chunksize_def alloc_mask_def
  prev_alloc_mask_def prev_mini_mask_def size_mask_def SIZE_MAX_def NULL_def

definition max_sz :: "word_t \<Rightarrow> word_t \<Rightarrow> word_t" where
  "max_sz x y = (if x > y then x else y)"

definition round_up :: "word_t \<Rightarrow> word_t \<Rightarrow> word_t" where
  "round_up sz n = n * ((sz + (n - 1)) div n)"

definition pack :: "word_t \<Rightarrow> bool \<Rightarrow> bool \<Rightarrow> bool \<Rightarrow> word_t" where
  "pack sz alloc prev_alloc prev_mini =
     (let word = sz;
          word = (if alloc then word OR alloc_mask else word);
          word = (if prev_alloc then word OR prev_alloc_mask else word);
          word = (if prev_mini then word OR prev_mini_mask else word)
      in word)"

definition extract_size :: "word_t \<Rightarrow> word_t" where
  "extract_size word = word AND size_mask"

definition extract_alloc :: "word_t \<Rightarrow> bool" where
  "extract_alloc word = (word AND alloc_mask \<noteq> 0)"

definition extract_prev_alloc :: "word_t \<Rightarrow> bool" where
  "extract_prev_alloc word = (word AND prev_alloc_mask \<noteq> 0)"

definition extract_prev_mini :: "word_t \<Rightarrow> bool" where
  "extract_prev_mini word = (word AND prev_mini_mask \<noteq> 0)"

text \<open>The fields of \<^verbatim>\<open>block_t\<close>: the header at offset 0, the union at offset 8.\<close>

definition header :: "state \<Rightarrow> addr \<Rightarrow> word_t" where
  "header s block = load64 (mem s) block"

definition set_header :: "state \<Rightarrow> addr \<Rightarrow> word_t \<Rightarrow> state" where
  "set_header s block w = s\<lparr>mem := store64 (mem s) block w\<rparr>"

definition free_prev :: "state \<Rightarrow> addr \<Rightarrow> addr" where
  "free_prev s block = load64 (mem s) (block + 8)"

definition free_next :: "state \<Rightarrow> addr \<Rightarrow> addr" where
  "free_next s block = load64 (mem s) (block + 16)"

definition next_mini :: "state \<Rightarrow> addr \<Rightarrow> addr" where
  "next_mini s block = load64 (mem s) (block + 8)"

definition set_free_prev :: "state \<Rightarrow> addr \<Rightarrow> addr \<Rightarrow> state" where
  "set_free_prev s block p = s\<lparr>mem := store64 (mem s) (block + 8) p\<rparr>"

definition set_free_next :: "state \<Rightarrow> addr \<Rightarrow> addr \<Rightarrow> state" where
  "set_free_next s block p = s\<lparr>mem := store64 (mem s) (block + 16) p\<rparr>"

definition set_next_mini :: "state \<Rightarrow> addr \<Rightarrow> addr \<Rightarrow> state" where
  "set_next_mini s block p = s\<lparr>mem := store64 (mem s) (block + 8) p\<rparr>"

definition set_seg_list :: "state \<Rightarrow> nat \<Rightarrow> addr \<Rightarrow> state" where
  "set_seg_list s i p = s\<lparr>segregated_free_list := (segregated_free_list s)(i := p)\<rparr>"

definition get_size :: "state \<Rightarrow> addr \<Rightarrow> word_t" where
  "get_size s block = extract_size (header s block)"

definition payload_to_header :: "addr \<Rightarrow> addr" where
  "payload_to_header bp = bp - 8"

definition header_to_payload :: "addr \<Rightarrow> addr" where
  "header_to_payload block = block + 8"

definition header_to_footer :: "state \<Rightarrow> addr \<Rightarrow> addr" where
  "header_to_footer s block = block + 8 + get_size s block - dsize"

definition footer_to_header :: "state \<Rightarrow> addr \<Rightarrow> addr" where
  "footer_to_header s footer = (let sz = extract_size (load64 (mem s) footer) in footer + wsize - sz)"

definition get_payload_size :: "state \<Rightarrow> addr \<Rightarrow> word_t" where
  "get_payload_size s block = (let asize = get_size s block in asize - wsize)"

definition get_alloc :: "state \<Rightarrow> addr \<Rightarrow> bool" where
  "get_alloc s block = extract_alloc (header s block)"

definition get_prev_alloc :: "state \<Rightarrow> addr \<Rightarrow> bool" where
  "get_prev_alloc s block = extract_prev_alloc (header s block)"

definition get_prev_mini :: "state \<Rightarrow> addr \<Rightarrow> bool" where
  "get_prev_mini s block = extract_prev_mini (header s block)"

definition write_epilogue :: "state \<Rightarrow> addr \<Rightarrow> bool \<Rightarrow> bool \<Rightarrow> state" where
  "write_epilogue s block prev_alloc prev_mini =
     set_header s block (pack 0 True prev_alloc prev_mini)"

definition write_block :: "state \<Rightarrow> addr \<Rightarrow> word_t \<Rightarrow> bool \<Rightarrow> bool \<Rightarrow> bool \<Rightarrow> state" where
  "write_block s block sz alloc prev_alloc prev_mini =
     (let s = set_header s block (pack sz alloc prev_alloc prev_mini)
      in if \<not> alloc \<and> sz > min_block_size
         then (let footerp = header_to_footer s block
               in s\<lparr>mem := store64 (mem s) footerp (pack sz alloc prev_alloc prev_mini)\<rparr>)
         else s)"

definition find_next :: "state \<Rightarrow> addr \<Rightarrow> addr" where
  "find_next s block = block + get_size s block"

definition find_prev_footer :: "addr \<Rightarrow> addr" where
  "find_prev_footer block = block - 8"

definition find_header :: "addr \<Rightarrow> addr" where
  "find_header block = block"

text \<open>\<^verbatim>\<open>find_prev\<close> returns \<^verbatim>\<open>NULL\<close> when the word before the header has size 0.\<close>

definition find_prev :: "state \<Rightarrow> addr \<Rightarrow> addr" where
  "find_prev s block =
     (let prev_mini = get_prev_mini s block
      in if prev_mini then (let headp = find_header block in headp - min_block_size)
         else (let footerp = find_prev_footer block
               in if extract_size (load64 (mem s) footerp) = 0 then NULL
                  else footer_to_header s footerp))"

section \<open>The size-class index\<close>

definition get_list_index :: "word_t \<Rightarrow> nat" where
  "get_list_index sz =
     (if sz \<le> s_list_7 then
        (if sz \<le> s_list_3 then
           (if sz \<le> s_list_1 then (if sz < s_list_mini then 0 else 1)
            else (if sz \<le> s_list_2 then 2 else 3))
         else
           (if sz \<le> s_list_5 then (if sz \<le> s_list_4 then 4 else 5)
            else (if sz \<le> s_list_6 then 6 else 7)))
      else
        (if sz \<le> s_list_11 then
           (if sz \<le> s_list_9 then (if sz \<le> s_list_8 then 8 else 9)
            else (if sz \<le> s_list_10 then 10 else 11))
         else
           (if sz \<le> s_list_13 then (if sz \<le> s_list_12 then 12 else 13)
            else 14)))"


section \<open>The free lists\<close>

text \<open>
  The debugging macros (\<^verbatim>\<open>dbg_requires\<close>, \<^verbatim>\<open>dbg_assert\<close>, \<^verbatim>\<open>dbg_ensures\<close>, \<^verbatim>\<open>dbg_printf\<close>)
  emit no code unless \<^verbatim>\<open>DEBUG\<close> is defined and are left out. A function of the source
  that can dereference \<^verbatim>\<open>NULL\<close> on its own list or neighbour pointers, or loop without
  end, returns an \<open>option\<close> here: \<open>None\<close> is the crash or the endless loop.
\<close>

definition insert_to_free_list :: "state \<Rightarrow> addr \<Rightarrow> state" where
  "insert_to_free_list s block =
     (if block = NULL then s
      else
        (let seg = get_list_index (get_size s block);
             head = segregated_free_list s seg
         in if head = NULL then
              (let s = set_seg_list s seg block;
                   s = set_free_prev s block NULL;
                   s = set_free_next s block NULL
               in s)
            else
              (let s = set_free_prev s block NULL;
                   s = set_free_next s block head;
                   s = set_free_prev s head block;
                   s = set_seg_list s seg block
               in s)))"

definition delete_from_free_list :: "state \<Rightarrow> addr \<Rightarrow> state option" where
  "delete_from_free_list s block =
     (if block = NULL then Some s
      else
        (let seg = get_list_index (get_size s block);
             head = segregated_free_list s seg
         in if head = block then
              (let next = free_next s block;
                   s = set_seg_list s seg next
               in if next \<noteq> NULL then Some (set_free_prev s next NULL) else Some s)
            else
              (let prev = free_prev s block;
                   next = free_next s block
               in if prev = NULL then None
                  else
                    (let s = set_free_next s prev next
                     in if next \<noteq> NULL then Some (set_free_prev s next prev) else Some s))))"

definition insert_to_mini_free_list :: "state \<Rightarrow> addr \<Rightarrow> state" where
  "insert_to_mini_free_list s block =
     (if block = NULL then s
      else
        (let head = segregated_free_list s 0
         in if head = NULL then
              (let s = set_seg_list s 0 block;
                   s = set_next_mini s block NULL
               in s)
            else
              (let s = set_next_mini s block head;
                   s = set_seg_list s 0 block
               in s)))"

text \<open>
  The walk of \<^verbatim>\<open>delete_from_mini_free_list\<close>:
  \<^verbatim>\<open>while (next != block) { prev = next; next = next->mini_free.next_mini; }\<close>.
  It reads through \<^verbatim>\<open>NULL\<close> when the block is not on the list, and never ends on a cycle
  that misses the block.
\<close>

partial_function (option) mini_walk :: "state \<Rightarrow> addr \<Rightarrow> addr \<Rightarrow> addr \<Rightarrow> (addr \<times> addr) option" where
  "mini_walk s block prev next =
     (if next = block then Some (prev, next)
      else if next = NULL then None
      else mini_walk s block next (next_mini s next))"

definition delete_from_mini_free_list :: "state \<Rightarrow> addr \<Rightarrow> state option" where
  "delete_from_mini_free_list s block =
     (if block = NULL then Some s
      else
        (let head = segregated_free_list s 0
         in if head = NULL then Some s
            else if head = block then
              (let next = next_mini s block in Some (set_seg_list s 0 next))
            else
              (case mini_walk s block head (next_mini s head) of
                 None \<Rightarrow> None
               | Some (prev, next) \<Rightarrow> Some (set_next_mini s prev (next_mini s next)))))"

definition update_block :: "state \<Rightarrow> addr \<Rightarrow> word_t \<Rightarrow> bool \<Rightarrow> bool \<Rightarrow> bool \<Rightarrow> state" where
  "update_block s block sz alloc prev_alloc prev_mini =
     set_header s block (pack sz alloc prev_alloc prev_mini)"

definition insert_normal_or_mini :: "state \<Rightarrow> addr \<Rightarrow> state" where
  "insert_normal_or_mini s block =
     (let sz = get_size s block
      in if sz = min_block_size then insert_to_mini_free_list s block
         else insert_to_free_list s block)"

definition delete_normal_or_mini :: "state \<Rightarrow> addr \<Rightarrow> state option" where
  "delete_normal_or_mini s block =
     (let sz = get_size s block
      in if sz = min_block_size then delete_from_mini_free_list s block
         else delete_from_free_list s block)"

section \<open>Coalescing, extending, splitting\<close>

text \<open>
  The last statement of \<^verbatim>\<open>coalesce_block\<close>, reached in cases 2 to 4 (case 1 returns
  before it): the header after the merged block gets \<^verbatim>\<open>prev_alloc = false\<close> and
  \<^verbatim>\<open>prev_mini = false\<close>.
\<close>

definition coalesce_finish :: "state \<Rightarrow> addr \<Rightarrow> state \<times> addr" where
  "coalesce_finish s block =
     (let block_next = find_next s block;
          s = update_block s block_next (get_size s block_next) (get_alloc s block_next) False False
      in (s, block))"

definition coalesce_block :: "state \<Rightarrow> addr \<Rightarrow> (state \<times> addr) option" where
  "coalesce_block s block =
     (let block_next = find_next s block;
          prev_alloc = get_prev_alloc s block;
          next_alloc = get_alloc s block_next
      in if prev_alloc \<and> next_alloc then Some (insert_normal_or_mini s block, block)
         else if \<not> prev_alloc \<and> next_alloc then
           (let block_prev = find_prev s block
            in if block_prev = NULL then None
               else
                 (let block_size = get_size s block;
                      block_prev_size = get_size s block_prev;
                      prev_prev_alloc = get_prev_alloc s block_prev;
                      prev_prev_mini = get_prev_mini s block_prev
                  in case delete_normal_or_mini s block_prev of
                       None \<Rightarrow> None
                     | Some s \<Rightarrow>
                         (let block = block_prev;
                              s = write_block s block (block_prev_size + block_size) False
                                    prev_prev_alloc prev_prev_mini;
                              s = insert_normal_or_mini s block
                          in Some (coalesce_finish s block))))
         else if prev_alloc \<and> \<not> next_alloc then
           (let block_size = get_size s block;
                block_next_size = get_size s block_next;
                prev_alloc = get_prev_alloc s block;
                prev_mini = get_prev_mini s block
            in case delete_normal_or_mini s block_next of
                 None \<Rightarrow> None
               | Some s \<Rightarrow>
                   (let s = write_block s block (block_size + block_next_size) False
                              prev_alloc prev_mini;
                        s = insert_normal_or_mini s block
                    in Some (coalesce_finish s block)))
         else
           (let block_prev = find_prev s block
            in if block_prev = NULL then None
               else
                 (let block_size = get_size s block;
                      block_prev_size = get_size s block_prev;
                      block_next_size = get_size s block_next;
                      prev_prev_alloc = get_prev_alloc s block_prev;
                      prev_prev_mini = get_prev_mini s block_prev
                  in case delete_normal_or_mini s block_next of
                       None \<Rightarrow> None
                     | Some s \<Rightarrow>
                         (let block = block_prev
                          in case delete_normal_or_mini s block of
                               None \<Rightarrow> None
                             | Some s \<Rightarrow>
                                 (let s = write_block s block
                                            (block_prev_size + block_size + block_next_size)
                                            False prev_prev_alloc prev_prev_mini;
                                      s = insert_normal_or_mini s block
                                  in Some (coalesce_finish s block))))))"

text \<open>
  \<^verbatim>\<open>extend_heap\<close> up to its call of \<^verbatim>\<open>coalesce_block\<close>: the new free block over the old
  epilogue, and the new epilogue. \<open>bp\<close> is what \<^verbatim>\<open>mem_sbrk\<close> returned and \<open>sz\<close> the
  rounded size.
\<close>

definition extend_heap_write :: "state \<Rightarrow> addr \<Rightarrow> word_t \<Rightarrow> state \<times> addr" where
  "extend_heap_write s bp sz =
     (let block = payload_to_header bp;
          prev_alloc = get_prev_alloc s block;
          prev_mini = get_prev_mini s block;
          s = write_block s block sz False prev_alloc prev_mini;
          block_next = find_next s block;
          prev_mini = (if True then sz = min_block_size else False);
          s = write_epilogue s block_next False prev_mini
      in (s, block))"

text \<open>The result is \<open>Some (s, NULL)\<close> when \<^verbatim>\<open>mem_sbrk\<close> refuses.\<close>

definition extend_heap :: "state \<Rightarrow> word_t \<Rightarrow> (state \<times> addr) option" where
  "extend_heap s sz =
     (let sz = round_up sz dsize
      in case mem_sbrk s sz of
           None \<Rightarrow> Some (s, NULL)
         | Some (bp, s) \<Rightarrow>
             (let (s, block) = extend_heap_write s bp sz in coalesce_block s block))"

text \<open>
  \<^verbatim>\<open>split_block\<close> up to its call of \<^verbatim>\<open>insert_normal_or_mini\<close>: the three headers it
  writes when the remainder is at least a minimum block.
\<close>

definition split_write :: "state \<Rightarrow> addr \<Rightarrow> word_t \<Rightarrow> word_t \<Rightarrow> state \<times> addr" where
  "split_write s block block_size asize =
     (let prev_alloc = get_prev_alloc s block;
          prev_mini = get_prev_mini s block;
          s = write_block s block asize True prev_alloc prev_mini;
          block_next = find_next s block;
          prev_mini = (if True then asize = min_block_size else False);
          s = write_block s block_next (block_size - asize) False True prev_mini;
          block_next_next = find_next s block_next;
          block_next_next_size = get_size s block_next_next;
          block_next_next_alloc = get_alloc s block_next_next;
          prev_mini = (if True then block_size - asize = min_block_size else False);
          s = update_block s block_next_next block_next_next_size block_next_next_alloc
                False prev_mini
      in (s, block_next))"

definition split_block :: "state \<Rightarrow> addr \<Rightarrow> word_t \<Rightarrow> state" where
  "split_block s block asize =
     (let block_size = get_size s block
      in if block_size - asize \<ge> min_block_size then
           (let (s, block_next) = split_write s block block_size asize
            in insert_normal_or_mini s block_next)
         else s)"

section \<open>Placement: the bounded best-fit search\<close>

text \<open>
  The \<^verbatim>\<open>while\<close> loop of \<^verbatim>\<open>find_fit\<close> over one list. \<open>Inl\<close> is the \<^verbatim>\<open>return\<close> from inside
  the loop; \<open>Inr\<close> carries \<^verbatim>\<open>best_fit_block\<close>, \<^verbatim>\<open>min_diff\<close> and \<^verbatim>\<open>cont\<close> to the next list,
  after the \<^verbatim>\<open>break\<close> (which resets \<^verbatim>\<open>cont\<close>) or at the end of the list (which does not).
\<close>

function find_fit_scan ::
  "state \<Rightarrow> word_t \<Rightarrow> addr \<Rightarrow> addr \<Rightarrow> word_t \<Rightarrow> nat \<Rightarrow> addr + (addr \<times> word_t \<times> nat)" where
  "find_fit_scan s block_size block best_fit_block min_diff cont =
     (if block = NULL then Inr (best_fit_block, min_diff, cont)
      else if get_size s block \<ge> block_size then
        (let diff = get_size s block - block_size;
             best_fit_block = (if diff < min_diff then block else best_fit_block);
             min_diff = (if diff < min_diff then diff else min_diff)
         in if min_diff \<le> CLOSE_ENOUGH then Inl best_fit_block
            else if cont > SEARCH_LIMIT then Inr (best_fit_block, min_diff, 0)
            else find_fit_scan s block_size (free_next s block) best_fit_block min_diff (cont + 1))
      else if cont > SEARCH_LIMIT then Inr (best_fit_block, min_diff, 0)
      else find_fit_scan s block_size (free_next s block) best_fit_block min_diff (cont + 1))"
  by pat_completeness auto
termination
  by (relation "measure (\<lambda>(s, block_size, block, best_fit_block, min_diff, cont). SEARCH_LIMIT + 1 - cont)")
     (auto simp: SEARCH_LIMIT_def)

text \<open>The \<^verbatim>\<open>for\<close> loop over the lists \<open>i, \<dots>, 14\<close>.\<close>

function find_fit_lists :: "state \<Rightarrow> word_t \<Rightarrow> nat \<Rightarrow> addr \<Rightarrow> word_t \<Rightarrow> nat \<Rightarrow> addr" where
  "find_fit_lists s block_size i best_fit_block min_diff cont =
     (if i < SEG_LIST_NUM then
        (case find_fit_scan s block_size (segregated_free_list s i) best_fit_block min_diff cont of
           Inl block \<Rightarrow> block
         | Inr (best_fit_block, min_diff, cont) \<Rightarrow>
             find_fit_lists s block_size (i + 1) best_fit_block min_diff cont)
      else best_fit_block)"
  by pat_completeness auto
termination
  by (relation "measure (\<lambda>(s, block_size, i, best_fit_block, min_diff, cont). SEG_LIST_NUM - i)")
     auto

definition find_fit :: "state \<Rightarrow> word_t \<Rightarrow> addr" where
  "find_fit s asize =
     (let block_size = asize;
          seg = get_list_index block_size
      in if seg = 0 \<and> segregated_free_list s 0 \<noteq> NULL then segregated_free_list s 0
         else find_fit_lists s block_size seg NULL SIZE_MAX 0)"

section \<open>The heap checker\<close>

text \<open>
  Every helper with a loop can run for ever on a heap that is broken enough, so it returns
  an \<open>option\<close>. The parameter \<^verbatim>\<open>curr\<close> of the source is \<open>cur\<close> here.
\<close>

definition check_prologue :: "state \<Rightarrow> addr \<Rightarrow> int \<Rightarrow> bool" where
  "check_prologue s prologue line =
     (if extract_size (load64 (mem s) prologue) \<noteq> 0 \<or> \<not> extract_alloc (load64 (mem s) prologue)
      then False else True)"

partial_function (option) epilogue_walk :: "state \<Rightarrow> addr \<Rightarrow> addr option" where
  "epilogue_walk s epilogue =
     (if get_size s epilogue \<noteq> 0 then epilogue_walk s (find_next s epilogue)
      else Some epilogue)"

definition check_epilogue :: "state \<Rightarrow> addr \<Rightarrow> int \<Rightarrow> bool option" where
  "check_epilogue s epilogue line =
     (case epilogue_walk s epilogue of
        None \<Rightarrow> None
      | Some epilogue \<Rightarrow>
          Some (if get_size s epilogue \<noteq> 0 \<or> \<not> get_alloc s epilogue then False else True))"

partial_function (option) check_lie_within_heap :: "state \<Rightarrow> addr \<Rightarrow> int \<Rightarrow> bool option" where
  "check_lie_within_heap s block line =
     (if get_size s block > 0 then
        (if block < mem_heap_lo s \<or> block > mem_heap_hi s then Some False
         else check_lie_within_heap s (find_next s block) line)
      else Some True)"

partial_function (option) check_block_alignment :: "state \<Rightarrow> addr \<Rightarrow> int \<Rightarrow> bool option" where
  "check_block_alignment s block line =
     (if get_size s block > 0 then
        (if get_size s block mod dsize \<noteq> 0 then Some False
         else check_block_alignment s (find_next s block) line)
      else Some True)"

partial_function (option) check_contiguous_free_blocks ::
  "state \<Rightarrow> addr \<Rightarrow> addr \<Rightarrow> int \<Rightarrow> bool option" where
  "check_contiguous_free_blocks s prev cur line =
     (if get_size s cur > 0 then
        (if \<not> get_alloc s cur \<and> \<not> get_alloc s prev then Some False
         else check_contiguous_free_blocks s cur (find_next s cur) line)
      else Some True)"

partial_function (option) check_header_footer_match :: "state \<Rightarrow> addr \<Rightarrow> int \<Rightarrow> bool option" where
  "check_header_footer_match s block line =
     (if get_size s block > min_block_size \<and> \<not> get_alloc s block then
        (let footerp = header_to_footer s block
         in if get_size s block \<noteq> extract_size (load64 (mem s) footerp) then Some False
            else check_header_footer_match s (find_next s block) line)
      else Some True)"

partial_function (option) check_minimum_block_size :: "state \<Rightarrow> addr \<Rightarrow> int \<Rightarrow> bool option" where
  "check_minimum_block_size s block line =
     (if get_size s block > 0 then
        (if get_size s block < min_block_size then Some False
         else check_minimum_block_size s (find_next s block) line)
      else Some True)"

partial_function (option) cycle_walk :: "state \<Rightarrow> addr \<Rightarrow> addr \<Rightarrow> bool option" where
  "cycle_walk s hare tortoise =
     (if hare \<noteq> NULL \<and> free_next s hare \<noteq> NULL then
        (let hare = free_next s (free_next s hare);
             tortoise = free_next s tortoise
         in if hare = tortoise then Some False else cycle_walk s hare tortoise)
      else Some True)"

definition check_cycle :: "state \<Rightarrow> addr \<Rightarrow> int \<Rightarrow> bool option" where
  "check_cycle s list line = (let hare = list; tortoise = list in cycle_walk s hare tortoise)"

partial_function (option) check_alloc :: "state \<Rightarrow> addr \<Rightarrow> int \<Rightarrow> bool option" where
  "check_alloc s block line =
     (if block \<noteq> NULL then
        (if get_alloc s block then Some False else check_alloc s (free_next s block) line)
      else Some True)"

partial_function (option) check_bounds :: "state \<Rightarrow> addr \<Rightarrow> int \<Rightarrow> bool option" where
  "check_bounds s block line =
     (if block \<noteq> NULL then
        (if block < mem_heap_lo s \<or> block > mem_heap_hi s then Some False
         else check_bounds s (free_next s block) line)
      else Some True)"

partial_function (option) check_consecutive :: "state \<Rightarrow> addr \<Rightarrow> int \<Rightarrow> bool option" where
  "check_consecutive s block line =
     (if block \<noteq> NULL \<and> free_next s block \<noteq> NULL then
        (if free_prev s (free_next s block) \<noteq> block then Some False
         else check_consecutive s (free_next s block) line)
      else Some True)"

partial_function (option) bucket_walk :: "state \<Rightarrow> nat \<Rightarrow> addr \<Rightarrow> bool option" where
  "bucket_walk s seg block =
     (if block \<noteq> NULL then
        (if get_list_index (get_size s block) \<noteq> seg then Some False
         else bucket_walk s seg (free_next s block))
      else Some True)"

definition check_bucket :: "state \<Rightarrow> addr \<Rightarrow> int \<Rightarrow> bool option" where
  "check_bucket s list line =
     (if list = NULL then Some True
      else (let block = list; seg = get_list_index (get_size s block) in bucket_walk s seg block))"

text \<open>
  One turn of the \<^verbatim>\<open>for\<close> loop of \<^verbatim>\<open>mm_checkheap\<close>: five assignments to \<^verbatim>\<open>consistent\<close>, each
  overwriting the one before.
\<close>

definition checkheap_list :: "state \<Rightarrow> nat \<Rightarrow> int \<Rightarrow> bool option" where
  "checkheap_list s i line =
     (case check_cycle s (segregated_free_list s i) line of None \<Rightarrow> None | Some consistent \<Rightarrow>
      case check_alloc s (segregated_free_list s i) line of None \<Rightarrow> None | Some consistent \<Rightarrow>
      case check_bounds s (segregated_free_list s i) line of None \<Rightarrow> None | Some consistent \<Rightarrow>
      case check_consecutive s (segregated_free_list s i) line of None \<Rightarrow> None | Some consistent \<Rightarrow>
      case check_bucket s (segregated_free_list s i) line of None \<Rightarrow> None | Some consistent \<Rightarrow>
      Some consistent)"

function checkheap_lists :: "state \<Rightarrow> nat \<Rightarrow> int \<Rightarrow> bool \<Rightarrow> bool option" where
  "checkheap_lists s i line consistent =
     (if i < SEG_LIST_NUM then
        (case checkheap_list s i line of
           None \<Rightarrow> None
         | Some consistent \<Rightarrow> checkheap_lists s (i + 1) line consistent)
      else Some consistent)"
  by pat_completeness auto
termination
  by (relation "measure (\<lambda>(s, i, line, consistent). SEG_LIST_NUM - i)") auto

definition mm_checkheap :: "state \<Rightarrow> int \<Rightarrow> bool option" where
  "mm_checkheap s line =
     (let prologue = heap_start s - 8;
          epilogue = heap_start s;
          block = heap_start s;
          prev = heap_start s;
          cur = find_next s prev;
          consistent = False;
          consistent = check_prologue s prologue line
      in case check_epilogue s epilogue line of None \<Rightarrow> None | Some consistent \<Rightarrow>
         case check_lie_within_heap s block line of None \<Rightarrow> None | Some consistent \<Rightarrow>
         case check_block_alignment s block line of None \<Rightarrow> None | Some consistent \<Rightarrow>
         case check_header_footer_match s block line of None \<Rightarrow> None | Some consistent \<Rightarrow>
         case check_minimum_block_size s block line of None \<Rightarrow> None | Some consistent \<Rightarrow>
         case check_contiguous_free_blocks s prev cur line of None \<Rightarrow> None | Some consistent \<Rightarrow>
         checkheap_lists s 1 line consistent)"

section \<open>The public interface\<close>

definition mm_init :: "state \<Rightarrow> (state \<times> bool) option" where
  "mm_init s =
     (let s = fold (\<lambda>i s. set_seg_list s i NULL) [0..<SEG_LIST_NUM] s
      in case mem_sbrk s (2 * wsize) of
           None \<Rightarrow> Some (s, False)
         | Some (start, s) \<Rightarrow>
             (let s = s\<lparr>mem := store64 (mem s) start (pack 0 True True False)\<rparr>;
                  s = s\<lparr>mem := store64 (mem s) (start + 8) (pack 0 True True False)\<rparr>;
                  s = s\<lparr>heap_start := start + 8\<rparr>
              in case extend_heap s chunksize of
                   None \<Rightarrow> None
                 | Some (s, block) \<Rightarrow> if block = NULL then Some (s, False) else Some (s, True)))"

text \<open>The adjusted block size of \<^verbatim>\<open>malloc\<close>, the argument of its \<^verbatim>\<open>find_fit\<close>.\<close>

definition malloc_asize :: "word_t \<Rightarrow> word_t" where
  "malloc_asize sz = (if sz \<le> wsize then min_block_size else round_up (sz + wsize) dsize)"

text \<open>
  \<^verbatim>\<open>malloc\<close> marking the fitted block allocated and updating the header after it, before
  it splits.
\<close>

definition malloc_mark :: "state \<Rightarrow> addr \<Rightarrow> state" where
  "malloc_mark s block =
     (let block_size = get_size s block;
          prev_alloc = get_prev_alloc s block;
          prev_mini = get_prev_mini s block;
          s = write_block s block block_size True prev_alloc prev_mini;
          block_next = find_next s block;
          block_next_size = get_size s block_next;
          block_next_alloc = get_alloc s block_next;
          block_next_prev_mini = (if True then block_size = min_block_size else False);
          s = update_block s block_next block_next_size block_next_alloc True block_next_prev_mini
      in s)"

definition malloc_place :: "state \<Rightarrow> addr \<Rightarrow> word_t \<Rightarrow> (state \<times> addr) option" where
  "malloc_place s block asize =
     (case delete_normal_or_mini s block of
        None \<Rightarrow> None
      | Some s \<Rightarrow>
          (let s = malloc_mark s block;
               s = split_block s block asize;
               bp = header_to_payload block
           in Some (s, bp)))"

text \<open>\<^verbatim>\<open>malloc\<close> once the heap is initialised.\<close>

definition malloc_body :: "state \<Rightarrow> word_t \<Rightarrow> (state \<times> addr) option" where
  "malloc_body s sz =
     (let bp = NULL
      in if sz = 0 then Some (s, bp)
         else
           (let asize = malloc_asize sz;
                block = find_fit s asize
            in if block = NULL then
                 (let extendsize = max_sz asize chunksize
                  in case extend_heap s extendsize of
                       None \<Rightarrow> None
                     | Some (s, block) \<Rightarrow>
                         if block = NULL then Some (s, bp) else malloc_place s block asize)
               else malloc_place s block asize))"

definition malloc :: "state \<Rightarrow> word_t \<Rightarrow> (state \<times> addr) option" where
  "malloc s sz =
     (if heap_start s = NULL then
        (case mm_init s of
           None \<Rightarrow> None
         | Some (s, ok) \<Rightarrow> if \<not> ok then Some (s, NULL) else malloc_body s sz)
      else malloc_body s sz)"

text \<open>\<^verbatim>\<open>free\<close> marking the block free and updating the header after it, before it coalesces.\<close>

definition free_mark :: "state \<Rightarrow> addr \<Rightarrow> state" where
  "free_mark s block =
     (let sz = get_size s block;
          prev_alloc = get_prev_alloc s block;
          prev_mini = get_prev_mini s block;
          s = write_block s block sz False prev_alloc prev_mini;
          block_next = find_next s block;
          block_next_size = get_size s block_next;
          block_next_alloc = get_alloc s block_next;
          block_next_prev_mini = (if True then sz = min_block_size else False);
          s = update_block s block_next block_next_size block_next_alloc False block_next_prev_mini
      in s)"

definition free :: "state \<Rightarrow> addr \<Rightarrow> state option" where
  "free s bp =
     (if bp = NULL then Some s
      else
        (let block = payload_to_header bp;
             s = free_mark s block
         in case coalesce_block s block of None \<Rightarrow> None | Some (s, block) \<Rightarrow> Some s))"

definition realloc :: "state \<Rightarrow> addr \<Rightarrow> word_t \<Rightarrow> (state \<times> addr) option" where
  "realloc s ptr sz =
     (let block = payload_to_header ptr
      in if sz = 0 then (case free s ptr of None \<Rightarrow> None | Some s \<Rightarrow> Some (s, NULL))
         else if ptr = NULL then malloc s sz
         else
           (case malloc s sz of
              None \<Rightarrow> None
            | Some (s, newptr) \<Rightarrow>
                if newptr = NULL then Some (s, NULL)
                else
                  (let copysize = get_payload_size s block;
                       copysize = (if sz < copysize then sz else copysize)
                   in case memcpy s newptr ptr copysize of
                        None \<Rightarrow> None
                      | Some s \<Rightarrow>
                          (case free s ptr of None \<Rightarrow> None | Some s \<Rightarrow> Some (s, newptr)))))"

definition calloc :: "state \<Rightarrow> word_t \<Rightarrow> word_t \<Rightarrow> (state \<times> addr) option" where
  "calloc s elements sz =
     (let asize = elements * sz
      in if elements = 0 then Some (s, NULL)
         else if asize div elements \<noteq> sz then Some (s, NULL)
         else
           (case malloc s asize of
              None \<Rightarrow> None
            | Some (s, bp) \<Rightarrow>
                if bp = NULL then Some (s, NULL)
                else
                  (case memset s bp 0 asize of
                     None \<Rightarrow> None
                   | Some s \<Rightarrow> Some (s, bp))))"

section \<open>Auxiliary notions for the proofs\<close>

text \<open>
  Two eight-byte cells at \<open>a\<close> and \<open>b\<close> do not overlap when the addresses are at least
  eight bytes apart in both directions around the address space.
\<close>

definition apart :: "addr \<Rightarrow> addr \<Rightarrow> bool" where
  "apart a b = (8 \<le> b - a \<and> 8 \<le> a - b)"

text \<open>A fresh arena of one mebibyte at address 4096, before \<^verbatim>\<open>mm_init\<close>.\<close>

definition arena0 :: state where
  "arena0 = \<lparr>mem = (\<lambda>_. 0), heap_start = NULL, segregated_free_list = (\<lambda>_. NULL),
     mem_start_brk = 4096, mem_brk = 4096, mem_max_addr = 4096 + 1048576\<rparr>"

text \<open>
  The heap that \<^verbatim>\<open>mm_init\<close> builds in that arena: the prologue at 4096, one free block of
  2048 bytes at 4104 (on list 6), the epilogue at 6152.
\<close>

definition heap1 :: state where
  "heap1 = \<lparr>mem = store64 (store64 (store64 (store64 (\<lambda>_. 0) 4096 3) 4104 2050) 6144 2050) 6152 1,
     heap_start = 4104, segregated_free_list = (\<lambda>_. NULL)(6 := 4104),
     mem_start_brk = 4096, mem_brk = 6160, mem_max_addr = 4096 + 1048576\<rparr>"

text \<open>Two states with the same arena bounds and the same \<^verbatim>\<open>heap_start\<close>.\<close>

definition same_arena :: "state \<Rightarrow> state \<Rightarrow> bool" where
  "same_arena s s' =
     (heap_start s' = heap_start s \<and> mem_start_brk s' = mem_start_brk s
      \<and> mem_brk s' = mem_brk s \<and> mem_max_addr s' = mem_max_addr s)"

text \<open>The same heap with the arena used up: \<^verbatim>\<open>mem_sbrk\<close> refuses every extension.\<close>

definition heap1_full :: state where
  "heap1_full = heap1\<lparr>mem_max_addr := 6160\<rparr>"

text \<open>That heap with its prologue word overwritten by 0: size 0, but not allocated.\<close>

definition heap1_bad :: state where
  "heap1_bad = heap1\<lparr>mem := store64 (mem heap1) 4096 0\<rparr>"

text \<open>
  Header addresses: \<^verbatim>\<open>mem_sbrk\<close> hands out 16-byte aligned memory and the first header lies
  eight bytes into it, so every header is at an address that is 8 modulo 16, and every list
  pointer is \<^verbatim>\<open>NULL\<close> or such an address.
\<close>

definition blk_ptr :: "addr \<Rightarrow> bool" where
  "blk_ptr p = (unat p mod 16 = 8)"

definition link_ok :: "addr \<Rightarrow> bool" where
  "link_ok p = (p = NULL \<or> blk_ptr p)"

definition heads_ok :: "state \<Rightarrow> bool" where
  "heads_ok s = list_all (\<lambda>i. link_ok (segregated_free_list s i)) [0..<SEG_LIST_NUM]"

text \<open>
  What \<^verbatim>\<open>coalesce_block\<close> does before it writes the merged block, case by case: the state
  once the free neighbours have been taken off their lists (\<open>None\<close> where the source reads
  through \<^verbatim>\<open>NULL\<close> or loops), the address of the merged block and its size.
\<close>

definition unlinked :: "state \<Rightarrow> addr \<Rightarrow> state option" where
  "unlinked s block =
     (let block_next = find_next s block;
          prev_alloc = get_prev_alloc s block;
          next_alloc = get_alloc s block_next
      in if prev_alloc \<and> next_alloc then Some s
         else if \<not> prev_alloc \<and> next_alloc then
           (if find_prev s block = NULL then None
            else delete_normal_or_mini s (find_prev s block))
         else if prev_alloc \<and> \<not> next_alloc then delete_normal_or_mini s block_next
         else
           (if find_prev s block = NULL then None
            else (case delete_normal_or_mini s block_next of
                    None \<Rightarrow> None
                  | Some s1 \<Rightarrow> delete_normal_or_mini s1 (find_prev s block))))"

definition merged_block :: "state \<Rightarrow> addr \<Rightarrow> addr" where
  "merged_block s block = (if get_prev_alloc s block then block else find_prev s block)"

definition merged_size :: "state \<Rightarrow> addr \<Rightarrow> word_t" where
  "merged_size s block =
     (if get_prev_alloc s block then 0 else get_size s (find_prev s block))
     + get_size s block
     + (if get_alloc s (find_next s block) then 0 else get_size s (find_next s block))"

text \<open>
  The block and the free neighbours it is merged with have sizes that are not 0, and the
  merged block does not wrap around the address space.
\<close>

definition sizes_fit :: "state \<Rightarrow> addr \<Rightarrow> bool" where
  "sizes_fit s block =
     (let bs = unat (get_size s block);
          ps = (if get_prev_alloc s block then 16 else unat (get_size s (find_prev s block)));
          ns = (if get_alloc s (find_next s block) then 16
                else unat (get_size s (find_next s block)))
      in 0 < bs \<and> 0 < ps \<and> 0 < ns \<and> ps + bs + ns < 2 ^ 64)"

text \<open>
  A heap with a free block of 32 bytes at 4104 (on list 1), allocated blocks of 32 bytes
  at 4136 and 4168, and the epilogue at 4200.
\<close>

definition heap2 :: state where
  "heap2 = \<lparr>mem = store64 (store64 (store64 (store64 (store64 (store64 (\<lambda>_. 0)
       4096 3) 4104 34) 4128 34) 4136 33) 4168 35) 4200 3,
     heap_start = 4104, segregated_free_list = (\<lambda>_. NULL)(1 := 4104),
     mem_start_brk = 4096, mem_brk = 4208, mem_max_addr = 4096 + 1048576\<rparr>"

text \<open>
  A heap of three allocated blocks: 16 bytes at 4104, 16 bytes at 4120, 32 bytes at 4136,
  and the epilogue at 4168.
\<close>

definition heap3 :: state where
  "heap3 = \<lparr>mem = store64 (store64 (store64 (store64 (store64 (\<lambda>_. 0)
       4096 3) 4104 19) 4120 23) 4136 39) 4168 3,
     heap_start = 4104, segregated_free_list = (\<lambda>_. NULL),
     mem_start_brk = 4096, mem_brk = 4176, mem_max_addr = 4096 + 1048576\<rparr>"

section \<open>The search of \<^verbatim>\<open>find_fit\<close>, on lists of entries\<close>

text \<open>The first \<open>n\<close> blocks of a free list, following \<^verbatim>\<open>free.next\<close> from \<open>b\<close>.\<close>

primrec chain :: "state \<Rightarrow> nat \<Rightarrow> addr \<Rightarrow> addr list" where
  "chain s 0 b = []"
| "chain s (Suc n) b = (if b = NULL then [] else b # chain s n (free_next s b))"

text \<open>
  The best fit over a list of entries, as the specification words it: keep the block with
  the least \<open>size - asize\<close> among the blocks that fit, and return (\<open>Inl\<close>) as soon as that
  least surplus is at most \<^verbatim>\<open>CLOSE_ENOUGH\<close>; otherwise carry the best so far on (\<open>Inr\<close>).
\<close>

fun scan_entries :: "state \<Rightarrow> word_t \<Rightarrow> addr list \<Rightarrow> addr \<times> word_t \<Rightarrow> addr + (addr \<times> word_t)" where
  "scan_entries s asize [] acc = Inr acc"
| "scan_entries s asize (b # bs) (best, least) =
     (if asize \<le> get_size s b then
        (let surplus = get_size s b - asize;
             acc = (if surplus < least then (b, surplus) else (best, least))
         in if snd acc \<le> CLOSE_ENOUGH then Inl (fst acc) else scan_entries s asize bs acc)
      else scan_entries s asize bs (best, least))"

fun search_buckets :: "state \<Rightarrow> word_t \<Rightarrow> addr list list \<Rightarrow> addr \<times> word_t \<Rightarrow> addr" where
  "search_buckets s asize [] acc = fst acc"
| "search_buckets s asize (es # ess) acc =
     (case scan_entries s asize es acc of
        Inl b \<Rightarrow> b
      | Inr acc \<Rightarrow> search_buckets s asize ess acc)"

text \<open>
  The search as the specification states it: in each bucket from that of \<open>asize\<close> to 14 the
  first \<^verbatim>\<open>SEARCH_LIMIT\<close> entries, after the short cut for a mini request.
\<close>

definition find_fit_spec :: "state \<Rightarrow> word_t \<Rightarrow> addr" where
  "find_fit_spec s asize =
     (if get_list_index asize = 0 \<and> segregated_free_list s 0 \<noteq> NULL
      then segregated_free_list s 0
      else search_buckets s asize
             (map (\<lambda>i. chain s SEARCH_LIMIT (segregated_free_list s i))
                [get_list_index asize..<SEG_LIST_NUM])
             (NULL, SIZE_MAX))"

text \<open>
  The entries the source examines, bucket by bucket: with \<open>cont\<close> entries counted since the
  last reset, the scan of a list stops after its entry number \<open>SEARCH_LIMIT + 2 - cont\<close>, and
  resets the count only then.
\<close>

fun examined :: "state \<Rightarrow> nat list \<Rightarrow> nat \<Rightarrow> addr list list" where
  "examined s [] cont = []"
| "examined s (i # is) cont =
     (let es = chain s (SEARCH_LIMIT + 2 - cont) (segregated_free_list s i)
      in es # examined s is (if length es = SEARCH_LIMIT + 2 - cont then 0 else cont + length es))"

definition find_fit_bounded :: "state \<Rightarrow> word_t \<Rightarrow> addr" where
  "find_fit_bounded s asize =
     (if get_list_index asize = 0 \<and> segregated_free_list s 0 \<noteq> NULL
      then segregated_free_list s 0
      else search_buckets s asize
             (examined s [get_list_index asize..<SEG_LIST_NUM] 0) (NULL, SIZE_MAX))"

text \<open>
  A heap with twelve free blocks on list 1, each followed by an allocated block of 32
  bytes: eleven of 32 bytes at 4104, 4168, \<dots>, 4744 and then, last on the list, one of 64
  bytes at 4808.
\<close>

definition fit_heap :: state where
  "fit_heap = \<lparr>mem = foldr (\<lambda>(a, w) m. store64 m a w)
      [(4096, 3), (4104, 34), (4120, 4168), (4128, 34), (4136, 33),
       (4168, 34), (4176, 4104), (4184, 4232), (4192, 34), (4200, 33),
       (4232, 34), (4240, 4168), (4248, 4296), (4256, 34), (4264, 33),
       (4296, 34), (4304, 4232), (4312, 4360), (4320, 34), (4328, 33),
       (4360, 34), (4368, 4296), (4376, 4424), (4384, 34), (4392, 33),
       (4424, 34), (4432, 4360), (4440, 4488), (4448, 34), (4456, 33),
       (4488, 34), (4496, 4424), (4504, 4552), (4512, 34), (4520, 33),
       (4552, 34), (4560, 4488), (4568, 4616), (4576, 34), (4584, 33),
       (4616, 34), (4624, 4552), (4632, 4680), (4640, 34), (4648, 33),
       (4680, 34), (4688, 4616), (4696, 4744), (4704, 34), (4712, 33),
       (4744, 34), (4752, 4680), (4760, 4808), (4768, 34), (4776, 33),
       (4808, 66), (4816, 4744), (4864, 66), (4872, 33), (4904, 3)]
      (\<lambda>_. 0),
     heap_start = 4104, segregated_free_list = (\<lambda>_. NULL)(1 := 4104),
     mem_start_brk = 4096, mem_brk = 4912, mem_max_addr = 4096 + 1048576\<rparr>"

text \<open>The equations of the loops are unfolded on demand only.\<close>

declare find_fit_scan.simps [simp del] find_fit_lists.simps [simp del]
  checkheap_lists.simps [simp del]

section \<open>Loads and stores\<close>

lemma octet_cases:
  assumes "n < (64::nat)"
  obtains "n < 8" | "8 \<le> n" "n < 16" | "16 \<le> n" "n < 24" | "24 \<le> n" "n < 32"
    | "32 \<le> n" "n < 40" | "40 \<le> n" "n < 48" | "48 \<le> n" "n < 56" | "56 \<le> n" "n < 64"
  using assms by linarith

lemma bytes_join:
  "ucast (byte_of w 0) OR push_bit 8 (ucast (byte_of w 1)) OR push_bit 16 (ucast (byte_of w 2))
     OR push_bit 24 (ucast (byte_of w 3)) OR push_bit 32 (ucast (byte_of w 4))
     OR push_bit 40 (ucast (byte_of w 5)) OR push_bit 48 (ucast (byte_of w 6))
     OR push_bit 56 (ucast (byte_of w 7)) = (w :: word_t)"
proof (rule bit_word_eqI)
  fix n :: nat
  assume "n < LENGTH(64)"
  then have "n < 64" by simp
  then show "bit (ucast (byte_of w 0) OR push_bit 8 (ucast (byte_of w 1))
     OR push_bit 16 (ucast (byte_of w 2))
     OR push_bit 24 (ucast (byte_of w 3)) OR push_bit 32 (ucast (byte_of w 4))
     OR push_bit 40 (ucast (byte_of w 5)) OR push_bit 48 (ucast (byte_of w 6))
     OR push_bit 56 (ucast (byte_of w 7)) :: word_t) n = bit w n"
    by (cases n rule: octet_cases) (auto simp add: byte_of_def bit_simps cong: conj_cong)
qed

lemma load64_store64_same [simp]: "load64 (store64 m a w) a = w"
proof -
  have "load64 (store64 m a w) a =
     ucast (byte_of w 0) OR push_bit 8 (ucast (byte_of w 1))
     OR push_bit 16 (ucast (byte_of w 2))
     OR push_bit 24 (ucast (byte_of w 3)) OR push_bit 32 (ucast (byte_of w 4))
     OR push_bit 40 (ucast (byte_of w 5)) OR push_bit 48 (ucast (byte_of w 6))
     OR push_bit 56 (ucast (byte_of w 7))"
    by (simp add: load64_def store64_def)
  then show ?thesis by (simp only: bytes_join)
qed

lemma apart_off:
  assumes "apart a b" "i < 8"
  shows "\<not> (b + i - a < 8)"
proof
  assume l: "b + i - a < 8"
  have A: "unat a < 2 ^ 64" and B: "unat b < 2 ^ 64"
    using unsigned_less [of a, where 'a = nat] unsigned_less [of b, where 'a = nat] by simp_all
  from assms have 1: "8 \<le> unat (b - a)" and 2: "8 \<le> unat (a - b)" and 3: "unat i < 8"
    by (simp_all add: apart_def word_le_nat_alt word_less_nat_alt)
  from l have 4: "unat (b + i - a) < 8" by (simp add: word_less_nat_alt)
  note f = unat_sub_if' [of b a] unat_sub_if' [of a b] unat_plus_if' [of b i]
    unat_sub_if' [of "b + i" a]
  have "unat (b + i) = unat b + unat i
      \<or> unat (b + i) = unat b + unat i - 2 ^ 64 \<and> 2 ^ 64 \<le> unat b + unat i"
    using f(3) by (simp split: if_splits)
  moreover have "unat (b + i - a) = unat (b + i) - unat a \<and> unat a \<le> unat (b + i)
      \<or> unat (b + i - a) = unat (b + i) + 2 ^ 64 - unat a \<and> unat (b + i) < unat a"
    using f(4) by (simp split: if_splits)
  moreover have "unat (b - a) = unat b - unat a \<and> unat a \<le> unat b
      \<or> unat (b - a) = unat b + 2 ^ 64 - unat a \<and> unat b < unat a"
    using f(1) by (simp split: if_splits)
  moreover have "unat (a - b) = unat a - unat b \<and> unat b \<le> unat a
      \<or> unat (a - b) = unat a + 2 ^ 64 - unat b \<and> unat a < unat b"
    using f(2) by (simp split: if_splits)
  ultimately show False using 1 2 3 4 A B by (elim disjE conjE) simp_all
qed

lemma load64_store64_apart [simp]: "apart a b \<Longrightarrow> load64 (store64 m a w) b = load64 m b"
  using apart_off [of a b 0] apart_off [of a b 1] apart_off [of a b 2] apart_off [of a b 3]
    apart_off [of a b 4] apart_off [of a b 5] apart_off [of a b 6] apart_off [of a b 7]
  by (simp add: load64_def store64_def)

section \<open>Unfolding the model on concrete heaps\<close>

lemma load64_zero [simp]: "load64 (\<lambda>_. 0) a = 0"
  by (simp add: load64_def)

lemmas model_defs = header_def set_header_def free_prev_def free_next_def next_mini_def
  set_free_prev_def set_free_next_def set_next_mini_def set_seg_list_def get_size_def
  payload_to_header_def header_to_payload_def header_to_footer_def footer_to_header_def
  get_payload_size_def get_alloc_def get_prev_alloc_def get_prev_mini_def write_epilogue_def
  write_block_def find_next_def find_prev_footer_def find_header_def find_prev_def
  insert_to_free_list_def delete_from_free_list_def insert_to_mini_free_list_def
  delete_from_mini_free_list_def update_block_def insert_normal_or_mini_def
  delete_normal_or_mini_def coalesce_finish_def coalesce_block_def extend_heap_write_def
  extend_heap_def split_write_def split_block_def
  pack_def extract_size_def extract_alloc_def extract_prev_alloc_def extract_prev_mini_def
  round_up_def max_sz_def mem_sbrk_def get_list_index_def
  malloc_def malloc_body_def malloc_place_def malloc_mark_def malloc_asize_def find_fit_def
  free_def free_mark_def calloc_def realloc_def memset_def memcpy_def in_arena_def

lemmas run_simps = model_defs mm_consts apart_def word_sless_alt Let_def
  find_fit_scan.simps find_fit_lists.simps

section \<open>Rounding\<close>


lemma round_up_16_dvd: "16 dvd unat (round_up x 16)"
proof -
  have "unat (round_up x 16) = (16 * unat ((x + 15) div 16)) mod 2 ^ 64"
    by (simp add: round_up_def unat_word_ariths)
  moreover have "(16::nat) dvd 2 ^ 64" by simp
  ultimately show ?thesis by (simp add: dvd_mod)
qed

lemma round_up_16_idem:
  assumes "16 dvd unat x"
  shows "round_up x 16 = x"
proof -
  from assms obtain k where k: "unat x = 16 * k" by (elim dvdE)
  have "unat x < 2 ^ 64" using unsigned_less [of x, where 'a = nat] by simp
  with k have kb: "16 * k + 15 < 2 ^ 64" by simp
  have "unat (x + 15) = 16 * k + 15"
    using kb k by (simp add: unat_word_ariths)
  then have "unat ((x + 15) div 16) = k" by (simp add: unat_div)
  then have "unat (16 * ((x + 15) div 16)) = 16 * k"
    using kb by (simp add: unat_word_ariths)
  then show ?thesis by (simp add: round_up_def word_unat_eq_iff k)
qed

lemma malloc_asize_dvd: "16 dvd unat (malloc_asize n)"
  using round_up_16_dvd [of "n + 8"] by (simp add: malloc_asize_def mm_consts)

lemma max_sz_chunk_dvd: "16 dvd unat (max_sz (malloc_asize n) chunksize)"
  using malloc_asize_dvd [of n] by (simp add: max_sz_def chunksize_def)

lemma extend_request: "round_up (max_sz (malloc_asize n) chunksize) dsize = max_sz (malloc_asize n) chunksize"
  using round_up_16_idem [OF max_sz_chunk_dvd] by (simp add: mm_consts)

section \<open>What the operations leave alone\<close>


lemma same_arena_refl [simp]: "same_arena s s"
  by (simp add: same_arena_def)

lemma same_arena_trans: "same_arena s t \<Longrightarrow> same_arena t u \<Longrightarrow> same_arena s u"
  by (simp add: same_arena_def)

lemma same_arena_mem [simp]: "same_arena s (s\<lparr>mem := m\<rparr>)"
  by (simp add: same_arena_def)

lemma same_arena_seg [simp]: "same_arena s (s\<lparr>segregated_free_list := f\<rparr>)"
  by (simp add: same_arena_def)

lemma same_arena_mem' [simp]: "same_arena s t \<Longrightarrow> same_arena s (t\<lparr>mem := m\<rparr>)"
  by (simp add: same_arena_def)

lemma same_arena_seg' [simp]: "same_arena s t \<Longrightarrow> same_arena s (t\<lparr>segregated_free_list := f\<rparr>)"
  by (simp add: same_arena_def)

lemma same_arena_write_block [simp]: "same_arena s t \<Longrightarrow> same_arena s (write_block t b sz a pa pm)"
  by (simp add: write_block_def set_header_def Let_def)

lemma same_arena_update_block [simp]: "same_arena s t \<Longrightarrow> same_arena s (update_block t b sz a pa pm)"
  by (simp add: update_block_def set_header_def)

lemma same_arena_write_epilogue [simp]: "same_arena s t \<Longrightarrow> same_arena s (write_epilogue t b pa pm)"
  by (simp add: write_epilogue_def set_header_def)

lemma same_arena_insert [simp]: "same_arena s t \<Longrightarrow> same_arena s (insert_normal_or_mini t b)"
  by (simp add: insert_normal_or_mini_def insert_to_free_list_def insert_to_mini_free_list_def
      set_seg_list_def set_free_prev_def set_free_next_def set_next_mini_def Let_def)

lemma same_arena_delete:
  "delete_normal_or_mini t b = Some t' \<Longrightarrow> same_arena s t \<Longrightarrow> same_arena s t'"
  by (auto simp: delete_normal_or_mini_def delete_from_free_list_def
      delete_from_mini_free_list_def set_seg_list_def set_free_prev_def set_free_next_def
      set_next_mini_def Let_def split: if_splits option.splits)

lemma same_arena_finish [simp]:
  "same_arena s t \<Longrightarrow> same_arena s (fst (coalesce_finish t b))"
  by (simp add: coalesce_finish_def Let_def)

lemma same_arena_coalesce:
  assumes "coalesce_block t b = Some (t', b')" "same_arena s t"
  shows "same_arena s t'"
  using assms
  unfolding coalesce_block_def Let_def
  by (auto split: if_splits option.splits dest!: same_arena_delete [where s = s]
      simp: coalesce_finish_def Let_def)

lemma same_arena_split [simp]: "same_arena s t \<Longrightarrow> same_arena s (split_block t b asize)"
  by (simp add: split_block_def split_write_def Let_def)

lemma same_arena_malloc_mark [simp]: "same_arena s t \<Longrightarrow> same_arena s (malloc_mark t b)"
  by (simp add: malloc_mark_def Let_def)

lemma same_arena_free_mark [simp]: "same_arena s t \<Longrightarrow> same_arena s (free_mark t b)"
  by (simp add: free_mark_def Let_def)

lemma same_arena_place:
  "malloc_place t b asize = Some (t', p) \<Longrightarrow> same_arena s t \<Longrightarrow> same_arena s t'"
  by (auto simp: malloc_place_def Let_def split: option.splits dest!: same_arena_delete [where s = s])

section \<open>The header codec\<close>


lemma fifteen_mask: "(15 :: word_t) = mask 4"
  by (simp add: mask_eq_exp_minus_1)

lemma bit_fifteen: "bit (15 :: word_t) n \<longleftrightarrow> n < 4"
  by (simp only: fifteen_mask bit_mask_iff) auto

lemma mult16_iff: "16 dvd unat (w :: word_t) \<longleftrightarrow> w AND 15 = 0"
  using and_mask_dvd_nat [of 4 w] by (simp add: fifteen_mask)

lemma bit_extract_size: "bit (extract_size w) n \<longleftrightarrow> bit w n \<and> 4 \<le> n"
  unfolding extract_size_def size_mask_def
  by (simp only: bit_and_iff bit_not_iff bit_fifteen) (auto simp: not_less dest: bit_imp_le_length)

lemma extract_size_mult16 [simp]: "extract_size w AND 15 = 0"
  by (rule bit_word_eqI) (simp only: bit_and_iff bit_extract_size bit_fifteen, auto)

lemma extract_size_dvd [simp]: "16 dvd unat (extract_size w)"
  by (simp add: mult16_iff)

lemma extract_alloc_bit: "extract_alloc w \<longleftrightarrow> bit w 0"
  using and_exp_eq_0_iff_not_bit [of w 0] by (simp add: extract_alloc_def alloc_mask_def)

lemma extract_prev_alloc_bit: "extract_prev_alloc w \<longleftrightarrow> bit w 1"
  using and_exp_eq_0_iff_not_bit [of w 1] by (simp add: extract_prev_alloc_def prev_alloc_mask_def)

lemma extract_prev_mini_bit: "extract_prev_mini w \<longleftrightarrow> bit w 2"
  using and_exp_eq_0_iff_not_bit [of w 2] by (simp add: extract_prev_mini_def prev_mini_mask_def)

lemma bit_alloc_mask: "bit alloc_mask n \<longleftrightarrow> n = 0"
  by (simp add: alloc_mask_def bit_1_iff)

lemma bit_prev_alloc_mask: "bit prev_alloc_mask n \<longleftrightarrow> n = 1"
proof -
  have e: "prev_alloc_mask = (2 :: word_t) ^ 1" by (simp add: prev_alloc_mask_def)
  show ?thesis unfolding e bit_exp_iff by auto
qed

lemma bit_prev_mini_mask: "bit prev_mini_mask n \<longleftrightarrow> n = 2"
proof -
  have e: "prev_mini_mask = (2 :: word_t) ^ 2" by (simp add: prev_mini_mask_def)
  show ?thesis unfolding e bit_exp_iff by auto
qed

lemma bit_pack:
  "bit (pack sz a pa pm) n \<longleftrightarrow> bit sz n \<or> (n = 0 \<and> a) \<or> (n = 1 \<and> pa) \<or> (n = 2 \<and> pm)"
  by (auto simp: pack_def Let_def bit_or_iff bit_alloc_mask bit_prev_alloc_mask bit_prev_mini_mask)

lemma mult16_low_bits:
  assumes "sz AND 15 = 0" "n < 4"
  shows "\<not> bit (sz :: word_t) n"
proof
  assume "bit sz n"
  with assms(2) have "bit (sz AND 15) n" by (simp only: bit_and_iff bit_fifteen)
  with assms(1) show False by simp
qed

lemma extract_size_pack [simp]: "extract_size (pack sz a pa pm) = extract_size sz"
  by (rule bit_word_eqI) (auto simp: bit_extract_size bit_pack)

lemma extract_size_idem: "sz AND 15 = 0 \<Longrightarrow> extract_size sz = sz"
  by (rule bit_word_eqI) (auto simp: bit_extract_size not_le dest: mult16_low_bits)

lemma extract_alloc_pack [simp]: "sz AND 15 = 0 \<Longrightarrow> extract_alloc (pack sz a pa pm) = a"
  using mult16_low_bits [of sz 0] by (auto simp: extract_alloc_bit bit_pack)

lemma extract_prev_alloc_pack [simp]:
  "sz AND 15 = 0 \<Longrightarrow> extract_prev_alloc (pack sz a pa pm) = pa"
  using mult16_low_bits [of sz 1] by (auto simp: extract_prev_alloc_bit bit_pack)

lemma extract_prev_mini_pack [simp]:
  "sz AND 15 = 0 \<Longrightarrow> extract_prev_mini (pack sz a pa pm) = pm"
  using mult16_low_bits [of sz 2] by (auto simp: extract_prev_mini_bit bit_pack)

section \<open>Cells that do not overlap\<close>


lemma apart_sym: "apart a b = apart b a"
  by (auto simp: apart_def)

lemma unat_neg_word:
  fixes d :: word_t
  assumes "d \<noteq> 0"
  shows "unat (- d) = 2 ^ 64 - unat d"
proof -
  from assms have "0 < unat d" by (simp add: unat_gt_0)
  then show ?thesis using unat_sub_if' [of 0 d] by simp
qed

lemma apart_offset:
  fixes d :: word_t
  assumes "8 \<le> unat d" "unat d \<le> 2 ^ 64 - 8"
  shows "apart a (a + d)"
proof -
  from assms(1) have "d \<noteq> 0" by auto
  then have "unat (- d) = 2 ^ 64 - unat d" by (rule unat_neg_word)
  with assms have "8 \<le> unat (- d)" by simp
  with assms(1) show ?thesis by (simp add: apart_def word_le_nat_alt)
qed

lemma mult16_bounds:
  fixes d :: word_t
  assumes "d AND 15 = 0" "d \<noteq> 0"
  shows "16 \<le> unat d" "unat d \<le> 2 ^ 64 - 16"
proof -
  from assms(1) obtain k where k: "unat d = 16 * k" by (auto simp: mult16_iff [symmetric] elim: dvdE)
  from assms(2) have "0 < unat d" by (simp add: unat_gt_0)
  with k show "16 \<le> unat d" by simp
  have "unat d < 2 ^ 64" using unsigned_less [of d, where 'a = nat] by simp
  with k show "unat d \<le> 2 ^ 64 - 16" by simp
qed

lemma apart_mult16: "d AND 15 = 0 \<Longrightarrow> d \<noteq> 0 \<Longrightarrow> apart a (a + d)"
  using mult16_bounds [of d] by (intro apart_offset) simp_all

lemma mult16_minus8_bounds:
  fixes d :: word_t
  assumes "d AND 15 = 0"
  shows "8 \<le> unat (d - 8) \<and> unat (d - 8) \<le> 2 ^ 64 - 8"
proof (cases "d = 0")
  case True
  then show ?thesis by simp
next
  case False
  have u: "unat (d - 8) = (if 8 \<le> unat d then unat d - 8 else unat d + 2 ^ 64 - 8)"
    using unat_sub_if' [of d 8] by simp
  from assms False have "16 \<le> unat d" "unat d \<le> 2 ^ 64 - 16" by (rule mult16_bounds)+
  then show ?thesis by (simp add: u) linarith
qed

lemma apart_mult16_minus8: "d AND 15 = 0 \<Longrightarrow> apart a (a + (d - 8))"
  using mult16_minus8_bounds [of d] by (intro apart_offset) simp_all

lemma mult16_add: "x AND 15 = 0 \<Longrightarrow> y AND 15 = 0 \<Longrightarrow> (x + y) AND 15 = (0 :: word_t)"
  by (simp add: mult16_iff [symmetric] unat_word_ariths dvd_mod)

lemma mult16_diff: "x AND 15 = 0 \<Longrightarrow> y AND 15 = 0 \<Longrightarrow> (x - y) AND 15 = (0 :: word_t)"
  using unat_sub_if' [of x y]
  by (auto simp add: mult16_iff [symmetric] split: if_splits)

lemma mult16_numeral [simp]: "(16 :: word_t) AND 15 = 0" "(0 :: word_t) AND 15 = 0"
  by simp_all

text \<open>Two headers a multiple of 16 apart are the same cell or do not overlap.\<close>

lemma same_or_apart: "d AND 15 = 0 \<Longrightarrow> d = 0 \<or> apart a (a + d)"
  using apart_mult16 [of d a] by auto

section \<open>Headers after the writes of each operation\<close>


lemma header_set_same [simp]: "header (set_header s a w) a = w"
  by (simp add: header_def set_header_def)

lemma header_set_apart: "apart a b \<Longrightarrow> header (set_header s a w) b = header s b"
  by (simp add: header_def set_header_def)

lemma get_size_mult16 [simp]: "get_size s b AND 15 = 0"
  by (simp add: get_size_def)

lemma header_update_same [simp]: "header (update_block s a sz al pa pm) a = pack sz al pa pm"
  by (simp add: update_block_def)

lemma header_update_apart:
  "apart a b \<Longrightarrow> header (update_block s a sz al pa pm) b = header s b"
  by (simp add: update_block_def header_set_apart)

lemma header_epilogue_same [simp]: "header (write_epilogue s a pa pm) a = pack 0 True pa pm"
  by (simp add: write_epilogue_def)

lemma header_epilogue_apart:
  "apart a b \<Longrightarrow> header (write_epilogue s a pa pm) b = header s b"
  by (simp add: write_epilogue_def header_set_apart)

text \<open>The footer that \<^verbatim>\<open>write_block\<close> writes lies \<open>sz - 8\<close> bytes after the header.\<close>

lemma write_block_eq:
  "write_block s a sz al pa pm =
     (if \<not> al \<and> sz > min_block_size
      then (set_header s a (pack sz al pa pm))
             \<lparr>mem := store64 (mem (set_header s a (pack sz al pa pm)))
                      (a + (extract_size sz - 8)) (pack sz al pa pm)\<rparr>
      else set_header s a (pack sz al pa pm))"
  by (simp add: write_block_def Let_def header_to_footer_def get_size_def dsize_def wsize_def
      add_diff_eq)

lemma header_write_block_same [simp]:
  "header (write_block s a sz al pa pm) a = pack sz al pa pm"
proof -
  have "apart (a + (extract_size sz - 8)) a"
    using apart_mult16_minus8 [of "extract_size sz" a] by (simp add: apart_sym)
  then show ?thesis
    by (simp add: write_block_eq) (simp add: header_def set_header_def)
qed

lemma header_write_block_apart:
  assumes "apart a b" "apart (a + (extract_size sz - 8)) b"
  shows "header (write_block s a sz al pa pm) b = header s b"
  using assms by (simp add: write_block_eq) (simp add: header_def set_header_def)

lemma header_write_block_alloc_apart:
  assumes "apart a b"
  shows "header (write_block s a sz True pa pm) b = header s b"
  using assms by (simp add: write_block_eq header_set_apart)

lemma extract_size_twice [simp]: "extract_size (extract_size w) = extract_size w"
  by (simp add: extract_size_idem)

lemma extract_size_zero [simp]: "extract_size 0 = 0"
  by (simp add: extract_size_def)

lemma extract_size_get_size [simp]: "extract_size (get_size s b) = get_size s b"
  by (simp add: get_size_def)

text \<open>
  Updating the flags of the header \<open>d\<close> bytes on, with its own size, keeps the size at \<open>a\<close>:
  the two headers are the same cell or apart.
\<close>

lemma get_size_update_next:
  assumes "d AND 15 = 0"
  shows "get_size (update_block s (a + d) (get_size s (a + d)) al pa pm) a = get_size s a"
proof (cases "d = 0")
  case True
  then show ?thesis by (simp add: get_size_def)
next
  case False
  with assms have "apart (a + d) a" using apart_mult16 [of d a] by (simp add: apart_sym)
  then show ?thesis by (simp add: get_size_def header_update_apart)
qed

lemma malloc_mark_prev_mini:
  "get_prev_mini (malloc_mark s block) (find_next (malloc_mark s block) block)
     = (get_size (malloc_mark s block) block = 16)"
proof -
  define bs where "bs = get_size s block"
  define s1 where "s1 = write_block s block bs True (get_prev_alloc s block) (get_prev_mini s block)"
  define nb where "nb = block + bs"
  define s2 where "s2 = update_block s1 nb (get_size s1 nb) (get_alloc s1 nb) True (bs = min_block_size)"
  have bs16: "bs AND 15 = 0" by (simp add: bs_def)
  have g1: "get_size s1 block = bs" by (simp add: s1_def get_size_def bs16 extract_size_idem)
  have m: "malloc_mark s block = s2"
    by (simp add: malloc_mark_def Let_def s2_def s1_def [symmetric] bs_def [symmetric]
        find_next_def g1 nb_def)
  have g2: "get_size s2 block = bs"
    unfolding s2_def nb_def using get_size_update_next [OF bs16, of s1 block] g1 by simp
  have "get_prev_mini s2 nb = (bs = min_block_size)"
    by (simp add: s2_def get_prev_mini_def)
  then show ?thesis by (simp add: m find_next_def g2 nb_def mm_consts)
qed

lemma free_mark_prev_mini:
  "get_prev_mini (free_mark s block) (find_next (free_mark s block) block)
     = (get_size (free_mark s block) block = 16)
   \<and> \<not> get_prev_alloc (free_mark s block) (find_next (free_mark s block) block)
   \<and> get_size (free_mark s block) block = get_size s block"
proof -
  define bs where "bs = get_size s block"
  define s1 where "s1 = write_block s block bs False (get_prev_alloc s block) (get_prev_mini s block)"
  define nb where "nb = block + bs"
  define s2 where "s2 = update_block s1 nb (get_size s1 nb) (get_alloc s1 nb) False (bs = min_block_size)"
  have bs16: "bs AND 15 = 0" by (simp add: bs_def)
  have g1: "get_size s1 block = bs" by (simp add: s1_def get_size_def bs16 extract_size_idem)
  have m: "free_mark s block = s2"
    by (simp add: free_mark_def Let_def s2_def s1_def [symmetric] bs_def [symmetric]
        find_next_def g1 nb_def)
  have g2: "get_size s2 block = bs"
    unfolding s2_def nb_def using get_size_update_next [OF bs16, of s1 block] g1 by simp
  have "get_prev_mini s2 nb = (bs = min_block_size)" "\<not> get_prev_alloc s2 nb"
    by (simp_all add: s2_def get_prev_mini_def get_prev_alloc_def)
  then show ?thesis by (simp add: m find_next_def g2 nb_def mm_consts bs_def)
qed

lemma extend_heap_write_prev_mini:
  assumes "sz AND 15 = 0" "extend_heap_write s bp sz = (t, block)"
  shows "get_prev_mini t (find_next t block) = (get_size t block = 16)
    \<and> \<not> get_prev_alloc t (find_next t block) \<and> get_size t block = sz \<and> block = bp - 8"
proof -
  define b where "b = bp - 8"
  define s1 where "s1 = write_block s b sz False (get_prev_alloc s b) (get_prev_mini s b)"
  define nb where "nb = b + sz"
  define s2 where "s2 = write_epilogue s1 nb False (sz = min_block_size)"
  have g1: "get_size s1 b = sz" by (simp add: s1_def get_size_def assms(1) extract_size_idem)
  have m: "t = s2" "block = b"
    using assms(2)
    by (auto simp add: extend_heap_write_def Let_def s2_def s1_def [symmetric] b_def [symmetric]
        payload_to_header_def find_next_def g1 nb_def)
  have g2: "get_size s2 b = sz"
  proof (cases "sz = 0")
    case True
    then show ?thesis by (simp add: s2_def nb_def get_size_def)
  next
    case False
    with assms(1) have "apart nb b" using apart_mult16 [of sz b] by (simp add: apart_sym nb_def)
    then show ?thesis by (simp add: s2_def get_size_def header_epilogue_apart g1 [unfolded get_size_def])
  qed
  have "get_prev_mini s2 nb = (sz = min_block_size)" "\<not> get_prev_alloc s2 nb"
    by (simp_all add: s2_def get_prev_mini_def get_prev_alloc_def)
  then show ?thesis by (simp add: m find_next_def g2 nb_def mm_consts) (simp add: b_def)
qed

section \<open>Null pointers and zero sizes\<close>

text \<open>
  C7. \<^verbatim>\<open>free(NULL)\<close> leaves the state as it is. \<^verbatim>\<open>realloc(NULL, n)\<close> is \<^verbatim>\<open>malloc(n)\<close>: the same
  result and the same state, for every \<open>n\<close> on an initialised heap and for every \<open>n\<close> but 0
  on any heap (on a heap never initialised, \<^verbatim>\<open>malloc(0)\<close> runs \<^verbatim>\<open>mm_init\<close> first and
  \<^verbatim>\<open>realloc(NULL, 0)\<close> does not). \<^verbatim>\<open>realloc(p, 0)\<close> is \<^verbatim>\<open>free(p)\<close> followed by the result
  \<^verbatim>\<open>NULL\<close>.
\<close>

theorem null_and_zero_requests:
  "free s NULL = Some s
   \<and> (sz \<noteq> 0 \<or> heap_start s \<noteq> NULL \<longrightarrow> realloc s NULL sz = malloc s sz)
   \<and> realloc s ptr 0 = (case free s ptr of None \<Rightarrow> None | Some s' \<Rightarrow> Some (s', NULL))"
  by (auto simp: free_def realloc_def malloc_def malloc_body_def split: option.splits)

theorem null_and_zero_requests_witness:
  "free heap1 NULL = Some heap1 \<and> heap_start heap1 \<noteq> NULL
   \<and> realloc heap1 NULL 0 = malloc heap1 0 \<and> realloc arena0 NULL 24 = malloc arena0 24
   \<and> realloc heap1 NULL 0 = Some (heap1, NULL)
   \<and> realloc heap1 0 0 = Some (heap1, NULL)"
  using null_and_zero_requests [of heap1 0 0] null_and_zero_requests [of arena0 24 0]
  by (simp add: heap1_def NULL_def malloc_def malloc_body_def)

section \<open>Requests that overflow\<close>

lemma top8:
  fixes n :: word_t
  assumes "18446744073709551607 < n"
  shows "n = 18446744073709551608 \<or> n = 18446744073709551609 \<or> n = 18446744073709551610
    \<or> n = 18446744073709551611 \<or> n = 18446744073709551612 \<or> n = 18446744073709551613
    \<or> n = 18446744073709551614 \<or> n = 18446744073709551615"
proof -
  have "unat n < 2 ^ 64" using unsigned_less [of n, where 'a = nat] by simp
  moreover from assms have "unat (18446744073709551607 :: word_t) < unat n"
    by (simp only: word_less_nat_alt)
  then have "18446744073709551608 \<le> unat n" by simp
  then obtain k where k: "unat n = 18446744073709551608 + k" by (auto simp: le_iff_add)
  ultimately have "k < 8" by simp
  then have "k = 0 \<or> k = 1 \<or> k = 2 \<or> k = 3 \<or> k = 4 \<or> k = 5 \<or> k = 6 \<or> k = 7" by linarith
  moreover have "n = of_nat (unat n)" by simp
  then have "n = of_nat (18446744073709551608 + k)" by (simp only: k)
  ultimately show ?thesis by (elim disjE) simp_all
qed

text \<open>
  C10. For every request \<open>n\<close> above \<open>2 ^ 64 - 9\<close> the adjusted size of \<^verbatim>\<open>malloc\<close> wraps to at
  most 16, far below \<open>n\<close>; for \<open>n = 2 ^ 64 - 1\<close> it is 16. Nothing in \<^verbatim>\<open>malloc\<close> guards against
  it: on the freshly initialised heap \<^verbatim>\<open>malloc(2 ^ 64 - 1)\<close> returns a payload that is not
  \<^verbatim>\<open>NULL\<close>, in a block of 16 bytes.
\<close>

theorem malloc_request_size_wraps:
  "(18446744073709551607 < n \<longrightarrow> malloc_asize n \<le> 16 \<and> malloc_asize n < n)
   \<and> malloc_asize 18446744073709551615 = 16
   \<and> (\<exists>s' p. malloc heap1 18446744073709551615 = Some (s', p) \<and> p \<noteq> NULL
        \<and> get_size s' (payload_to_header p) = 16)"
proof (intro conjI impI)
  assume "18446744073709551607 < n"
  then have "n = 18446744073709551608 \<or> n = 18446744073709551609 \<or> n = 18446744073709551610
    \<or> n = 18446744073709551611 \<or> n = 18446744073709551612 \<or> n = 18446744073709551613
    \<or> n = 18446744073709551614 \<or> n = 18446744073709551615"
    by (rule top8)
  then show "malloc_asize n \<le> 16" "malloc_asize n < n"
    by (auto simp: malloc_asize_def round_up_def mm_consts)
next
  show "malloc_asize 18446744073709551615 = 16"
    by (simp add: malloc_asize_def round_up_def mm_consts)
next
  show "\<exists>s' p. malloc heap1 18446744073709551615 = Some (s', p) \<and> p \<noteq> NULL
        \<and> get_size s' (payload_to_header p) = 16"
    unfolding heap1_def by (simp add: run_simps)
qed

theorem malloc_request_size_wraps_witness:
  "(18446744073709551607 :: word_t) < 18446744073709551615
   \<and> malloc_asize 18446744073709551615 \<le> 16
   \<and> malloc_asize 18446744073709551615 < 18446744073709551615"
  using malloc_request_size_wraps [of 18446744073709551615] by simp

section \<open>A refused extension\<close>


lemma extend_heap_refused:
  "mem_sbrk s (round_up sz dsize) = None \<Longrightarrow> extend_heap s sz = Some (s, NULL)"
  by (simp add: extend_heap_def Let_def)

lemma malloc_refused:
  assumes "heap_start s \<noteq> NULL" "n \<noteq> 0" "find_fit s (malloc_asize n) = NULL"
    and "mem_sbrk s (round_up (max_sz (malloc_asize n) chunksize) dsize) = None"
  shows "malloc s n = Some (s, NULL)"
  using assms by (simp add: malloc_def malloc_body_def Let_def extend_heap_refused)

text \<open>
  C6. When \<^verbatim>\<open>mem_sbrk\<close> refuses, \<^verbatim>\<open>extend_heap\<close> returns \<^verbatim>\<open>NULL\<close> and the state it was given,
  with no heap word written. On an initialised heap, a request that finds no fit and whose
  extension is refused makes \<^verbatim>\<open>malloc\<close>, \<^verbatim>\<open>realloc\<close> and \<^verbatim>\<open>calloc\<close> return \<^verbatim>\<open>NULL\<close> and the
  very state they were called in: list heads, headers, footers and links are all unchanged.
\<close>

theorem sbrk_refusal_changes_nothing:
  "(mem_sbrk s (round_up sz dsize) = None \<longrightarrow> extend_heap s sz = Some (s, NULL))
   \<and> (heap_start s \<noteq> NULL \<and> n \<noteq> 0 \<and> find_fit s (malloc_asize n) = NULL
        \<and> mem_sbrk s (round_up (max_sz (malloc_asize n) chunksize) dsize) = None
      \<longrightarrow> malloc s n = Some (s, NULL) \<and> realloc s ptr n = Some (s, NULL)
          \<and> (elements \<noteq> 0 \<and> (elements * esz) div elements = esz \<and> elements * esz = n
              \<longrightarrow> calloc s elements esz = Some (s, NULL)))"
proof (intro conjI impI; (elim conjE)?)
  assume "mem_sbrk s (round_up sz dsize) = None"
  then show "extend_heap s sz = Some (s, NULL)" by (rule extend_heap_refused)
next
  assume a: "heap_start s \<noteq> NULL" "n \<noteq> 0" "find_fit s (malloc_asize n) = NULL"
    "mem_sbrk s (round_up (max_sz (malloc_asize n) chunksize) dsize) = None"
  then show m: "malloc s n = Some (s, NULL)" by (rule malloc_refused)
  from m a(2) show "realloc s ptr n = Some (s, NULL)"
    by (simp add: realloc_def Let_def)
  assume "elements \<noteq> 0" "(elements * esz) div elements = esz" "elements * esz = n"
  with m show "calloc s elements esz = Some (s, NULL)"
    by (simp add: calloc_def Let_def)
qed

lemma heap1_full_no_fit: "find_fit heap1_full (malloc_asize 3000) = NULL"
  unfolding heap1_full_def heap1_def by (simp add: run_simps)

lemma heap1_full_refuses:
  "mem_sbrk heap1_full (round_up (max_sz (malloc_asize 3000) chunksize) dsize) = None"
  unfolding heap1_full_def heap1_def by (simp add: run_simps)

theorem sbrk_refusal_changes_nothing_witness:
  "mem_sbrk heap1_full (round_up 3008 dsize) = None
   \<and> extend_heap heap1_full 3008 = Some (heap1_full, NULL)
   \<and> heap_start heap1_full \<noteq> NULL \<and> (3000 :: word_t) \<noteq> 0
   \<and> find_fit heap1_full (malloc_asize 3000) = NULL
   \<and> mem_sbrk heap1_full (round_up (max_sz (malloc_asize 3000) chunksize) dsize) = None
   \<and> malloc heap1_full 3000 = Some (heap1_full, NULL)
   \<and> realloc heap1_full 4112 3000 = Some (heap1_full, NULL)
   \<and> (1000 :: word_t) \<noteq> 0 \<and> (1000 * 3 :: word_t) div 1000 = 3 \<and> (1000 * 3 :: word_t) = 3000
   \<and> calloc heap1_full 1000 3 = Some (heap1_full, NULL)"
proof -
  have 1: "mem_sbrk heap1_full (round_up 3008 dsize) = None"
    unfolding heap1_full_def heap1_def by (simp add: run_simps)
  have 2: "heap_start heap1_full \<noteq> NULL"
    by (simp add: heap1_full_def heap1_def NULL_def)
  show ?thesis
    using sbrk_refusal_changes_nothing [of heap1_full 3008 3000 4112 1000 3]
      1 2 heap1_full_no_fit heap1_full_refuses
    by simp
qed


section \<open>The adjusted size and the extension of the heap\<close>

lemma extend_heap_grows:
  assumes "extend_heap s sz = Some (s', b)" "b \<noteq> NULL"
  shows "mem_brk s' = mem_brk s + round_up sz dsize"
proof (cases "mem_sbrk s (round_up sz dsize)")
  case None
  with assms show ?thesis by (simp add: extend_heap_def Let_def)
next
  case (Some r)
  obtain bp s1 where r: "r = (bp, s1)" by (cases r)
  from Some r have s1: "mem_brk s1 = mem_brk s + round_up sz dsize"
    by (auto simp: mem_sbrk_def split: if_splits)
  obtain s2 blk where w: "extend_heap_write s1 bp (round_up sz dsize) = (s2, blk)"
    by (cases "extend_heap_write s1 bp (round_up sz dsize)")
  then have "same_arena s1 s2"
    by (auto simp: extend_heap_write_def Let_def)
  moreover from assms Some r w have "coalesce_block s2 blk = Some (s', b)"
    by (simp add: extend_heap_def Let_def)
  ultimately have "same_arena s1 s'" by (rule same_arena_coalesce [rotated])
  with s1 show ?thesis by (simp add: same_arena_def)
qed

lemma round_up_16_unat:
  assumes "unat x + 15 < 2 ^ 64"
  shows "unat (round_up x 16) = 16 * ((unat x + 15) div 16)"
proof -
  have "unat (x + 15) = unat x + 15" using assms by (simp add: unat_word_ariths)
  then have d: "unat ((x + 15) div 16) = (unat x + 15) div 16" by (simp add: unat_div)
  have "16 * ((unat x + 15) div 16) \<le> unat x + 15" by simp
  with assms have "16 * ((unat x + 15) div 16) < 2 ^ 64" by linarith
  then show ?thesis by (simp add: round_up_def unat_word_ariths d)
qed

lemma malloc_asize_rounds:
  assumes "8 < n" "unat n + 23 < 2 ^ 64"
  shows "16 dvd unat (malloc_asize n) \<and> unat n + 8 \<le> unat (malloc_asize n)
    \<and> unat (malloc_asize n) < unat n + 24"
proof -
  from assms(1) have a: "malloc_asize n = round_up (n + 8) 16"
    by (simp add: malloc_asize_def mm_consts not_le [symmetric])
  have u: "unat (n + 8) = unat n + 8" using assms(2) by (simp add: unat_word_ariths)
  with assms(2) have "unat (round_up (n + 8) 16) = 16 * ((unat n + 8 + 15) div 16)"
    by (simp add: round_up_16_unat)
  then show ?thesis unfolding a by (simp add: round_up_16_dvd) presburger
qed



section \<open>The flag for a mini predecessor\<close>


lemma split_write_prev_mini:
  assumes a16: "asize AND 15 = 0" and a0: "asize \<noteq> 0"
    and ge: "min_block_size \<le> get_size s block - asize"
    and sw: "split_write s block (get_size s block) asize = (t, r)"
  shows "r = find_next t block \<and> get_prev_mini t r = (get_size t block = 16)
    \<and> get_prev_mini t (find_next t r) = (get_size t r = 16)
    \<and> get_size t block = asize \<and> get_size t r = get_size s block - asize"
proof -
  define bs where "bs = get_size s block"
  define rs where "rs = bs - asize"
  define s1 where "s1 = write_block s block asize True (get_prev_alloc s block) (get_prev_mini s block)"
  define nb where "nb = block + asize"
  define s2 where "s2 = write_block s1 nb rs False True (asize = min_block_size)"
  define nnb where "nnb = nb + rs"
  define s3 where "s3 = update_block s2 nnb (get_size s2 nnb) (get_alloc s2 nnb) False (rs = min_block_size)"
  have bs16: "bs AND 15 = 0" by (simp add: bs_def)
  have rs16: "rs AND 15 = 0" unfolding rs_def using bs16 a16 by (rule mult16_diff)
  have rs0: "rs \<noteq> 0" using ge by (auto simp: rs_def bs_def mm_consts)
  have nnb: "nnb = block + bs" by (simp add: nnb_def nb_def rs_def)
  have g1: "get_size s1 block = asize" by (simp add: s1_def get_size_def a16 extract_size_idem)
  have h2: "header s2 nb = pack rs False True (asize = min_block_size)" by (simp add: s2_def)
  have g2: "get_size s2 nb = rs" by (simp add: get_size_def h2 rs16 extract_size_idem)
  have m: "t = s3" "r = nb"
    using sw
    by (auto simp add: split_write_def Let_def s3_def s2_def [symmetric] s1_def [symmetric]
        bs_def [symmetric] rs_def [symmetric] find_next_def g1 g2 nb_def [symmetric]
        nnb_def [symmetric])
  \<comment> \<open>the block's header survives the writes of the remainder\<close>
  have ap1: "apart nb block" using apart_mult16 [OF a16 a0, of block] by (simp add: nb_def apart_sym)
  have e: "nb + (extract_size rs - 8) = block + (bs - 8)"
    using rs16 by (simp add: extract_size_idem) (simp add: nb_def rs_def)
  have ap2: "apart (nb + (extract_size rs - 8)) block"
    unfolding e using apart_mult16_minus8 [OF bs16, of block] by (simp add: apart_sym)
  have hb2: "header s2 block = header s1 block"
    unfolding s2_def using ap1 ap2 by (rule header_write_block_apart)
  have gb2: "get_size s2 block = asize" using g1 by (simp add: get_size_def hb2)
  have gb3: "get_size s3 block = asize"
    unfolding s3_def nnb using get_size_update_next [OF bs16, of s2 block] gb2 by simp
  \<comment> \<open>the remainder's header survives the update of the header after it\<close>
  have ap3: "apart nnb nb" using apart_mult16 [OF rs16 rs0, of nb] by (simp add: nnb_def apart_sym)
  have h3: "header s3 nb = pack rs False True (asize = min_block_size)"
    unfolding s3_def using ap3 h2 by (simp add: header_update_apart)
  have g3: "get_size s3 nb = rs" by (simp add: get_size_def h3 rs16 extract_size_idem)
  have pm_r: "get_prev_mini s3 nb = (asize = min_block_size)"
    by (simp add: get_prev_mini_def h3 rs16)
  have pm_n: "get_prev_mini s3 nnb = (rs = min_block_size)"
    by (simp add: s3_def get_prev_mini_def)
  show ?thesis
    using pm_r pm_n
    by (simp add: m find_next_def gb3 g3 nnb_def [symmetric] nb_def [symmetric] mm_consts)
       (simp add: rs_def bs_def)
qed

text \<open>
  C2. Wherever the allocator writes the \<^verbatim>\<open>prev_mini\<close> flag of a header that follows a block,
  the flag written says whether that block has size 16: in \<^verbatim>\<open>malloc\<close> after the fitted block
  is marked allocated, in \<^verbatim>\<open>free\<close> after the block is marked free, in \<^verbatim>\<open>split_block\<close> for the
  remainder and for the header after the remainder (for an adjusted size that is a multiple
  of 16 and not 0, as \<^verbatim>\<open>malloc\<close> passes it), and in \<^verbatim>\<open>extend_heap\<close> for the new epilogue. The
  source's \<^verbatim>\<open>true ? c : false\<close> is \<^verbatim>\<open>c\<close>.
\<close>

theorem prev_mini_writes:
  "get_prev_mini (malloc_mark s block) (find_next (malloc_mark s block) block)
     = (get_size (malloc_mark s block) block = 16)
   \<and> get_prev_mini (free_mark s block) (find_next (free_mark s block) block)
     = (get_size (free_mark s block) block = 16)
   \<and> (16 dvd unat asize \<and> asize \<noteq> 0 \<and> min_block_size \<le> get_size s block - asize
      \<longrightarrow> (case split_write s block (get_size s block) asize of (t, r) \<Rightarrow>
            r = find_next t block \<and> get_prev_mini t r = (get_size t block = 16)
            \<and> get_prev_mini t (find_next t r) = (get_size t r = 16)))
   \<and> (case extend_heap_write s bp (round_up sz dsize) of (t, b) \<Rightarrow>
        get_prev_mini t (find_next t b) = (get_size t b = 16))"
proof (intro conjI impI)
  show "get_prev_mini (malloc_mark s block) (find_next (malloc_mark s block) block)
     = (get_size (malloc_mark s block) block = 16)"
    by (rule malloc_mark_prev_mini)
  show "get_prev_mini (free_mark s block) (find_next (free_mark s block) block)
     = (get_size (free_mark s block) block = 16)"
    using free_mark_prev_mini [of s block] by simp
next
  assume a: "16 dvd unat asize \<and> asize \<noteq> 0 \<and> min_block_size \<le> get_size s block - asize"
  obtain t r where sw: "split_write s block (get_size s block) asize = (t, r)"
    by (cases "split_write s block (get_size s block) asize")
  from a have "asize AND 15 = 0" "asize \<noteq> 0" "min_block_size \<le> get_size s block - asize"
    by (simp_all add: mult16_iff)
  from split_write_prev_mini [OF this sw]
  have f: "r = find_next t block \<and> get_prev_mini t r = (get_size t block = 16)
            \<and> get_prev_mini t (find_next t r) = (get_size t r = 16)"
    by blast
  show "case split_write s block (get_size s block) asize of (t, r) \<Rightarrow>
            r = find_next t block \<and> get_prev_mini t r = (get_size t block = 16)
            \<and> get_prev_mini t (find_next t r) = (get_size t r = 16)"
    unfolding sw prod.case by (rule f)
next
  obtain t b where ew: "extend_heap_write s bp (round_up sz dsize) = (t, b)"
    by (cases "extend_heap_write s bp (round_up sz dsize)")
  have "round_up sz dsize AND 15 = 0"
    using round_up_16_dvd [of sz] by (simp add: mult16_iff mm_consts)
  from extend_heap_write_prev_mini [OF this ew]
  have f: "get_prev_mini t (find_next t b) = (get_size t b = 16)" by blast
  show "case extend_heap_write s bp (round_up sz dsize) of (t, b) \<Rightarrow>
        get_prev_mini t (find_next t b) = (get_size t b = 16)"
    unfolding ew prod.case by (rule f)
qed

theorem prev_mini_writes_witness:
  "16 dvd unat (16 :: word_t) \<and> (16 :: word_t) \<noteq> 0
   \<and> min_block_size \<le> get_size heap1 4104 - 16
   \<and> (case split_write heap1 4104 (get_size heap1 4104) 16 of (t, r) \<Rightarrow>
        r = 4120 \<and> get_size t 4104 = 16 \<and> get_prev_mini t r
        \<and> get_size t r = 2032 \<and> \<not> get_prev_mini t (find_next t r))"
proof -
  have 1: "min_block_size \<le> get_size heap1 4104 - 16"
    unfolding heap1_def by (simp add: run_simps)
  have 2: "case split_write heap1 4104 (get_size heap1 4104) 16 of (t, r) \<Rightarrow>
      r = 4120 \<and> get_size t 4104 = 16 \<and> get_size t r = 2032"
    unfolding heap1_def by (simp add: run_simps)
  show ?thesis
    using prev_mini_writes [of heap1 4104 16] 1 2
    by (auto split: prod.splits)
qed

section \<open>The result of the heap checker\<close>


lemmas check_simps = mm_checkheap_def check_prologue_def check_epilogue_def
  epilogue_walk.simps check_lie_within_heap.simps check_block_alignment.simps
  check_contiguous_free_blocks.simps check_header_footer_match.simps
  check_minimum_block_size.simps cycle_walk.simps check_cycle_def check_alloc.simps
  check_bounds.simps check_consecutive.simps bucket_walk.simps check_bucket_def
  checkheap_list_def checkheap_lists.simps mem_heap_lo_def mem_heap_hi_def

text \<open>
  C3. \<^verbatim>\<open>mm_checkheap\<close> is to return false as soon as one of its checks fails. The source
  assigns the result of every check to the same variable and returns the last: on the heap
  of \<^verbatim>\<open>mm_init\<close> with a prologue that is not marked allocated, \<^verbatim>\<open>check_prologue\<close> fails and
  \<^verbatim>\<open>mm_checkheap\<close> returns true.
\<close>

theorem checkheap_overwrites_result:
  "check_prologue heap1_bad (heap_start heap1_bad - 8) line = False
   \<and> mm_checkheap heap1_bad line = Some True"
  unfolding heap1_bad_def heap1_def
  by (simp add: check_simps run_simps)


theorem checkheap_overwrites_result_witness:
  "mm_checkheap heap1_bad 1437 = Some True \<and> \<not> check_prologue heap1_bad 4096 1437"
  using checkheap_overwrites_result [of 1437] by (simp add: heap1_bad_def heap1_def)

section \<open>The size classes\<close>

lemma mult16_lt32:
  fixes sz :: word_t
  assumes "sz \<noteq> 0" "16 dvd unat sz"
  shows "sz < 32 \<longleftrightarrow> sz = 16"
proof -
  from assms(1) have "unat sz \<noteq> 0" by (simp add: unat_eq_0)
  with assms(2) have "unat sz < 32 \<longleftrightarrow> unat sz = 16" by (auto elim!: dvdE)
  then show ?thesis by (simp add: word_less_nat_alt word_unat_eq_iff)
qed

text \<open>
  C9. For every size that is a positive multiple of 16, \<^verbatim>\<open>get_list_index\<close> returns 0 exactly
  for 16, 1 exactly for the sizes from 32 to 64, \<open>k\<close> (from 2 to 13) exactly for the sizes
  above the previous threshold and up to the threshold 128, 256, \<dots>, 262144 of class \<open>k\<close>, and
  14 exactly for the sizes above 262144.
\<close>

theorem get_list_index_classes:
  fixes sz :: word_t
  assumes "sz \<noteq> 0" and "16 dvd unat sz"
  shows "(get_list_index sz = 0 \<longleftrightarrow> sz = 16)
    \<and> (get_list_index sz = 1 \<longleftrightarrow> 32 \<le> sz \<and> sz \<le> 64)
    \<and> (get_list_index sz = 2 \<longleftrightarrow> 64 < sz \<and> sz \<le> 128)
    \<and> (get_list_index sz = 3 \<longleftrightarrow> 128 < sz \<and> sz \<le> 256)
    \<and> (get_list_index sz = 4 \<longleftrightarrow> 256 < sz \<and> sz \<le> 512)
    \<and> (get_list_index sz = 5 \<longleftrightarrow> 512 < sz \<and> sz \<le> 1024)
    \<and> (get_list_index sz = 6 \<longleftrightarrow> 1024 < sz \<and> sz \<le> 2048)
    \<and> (get_list_index sz = 7 \<longleftrightarrow> 2048 < sz \<and> sz \<le> 4096)
    \<and> (get_list_index sz = 8 \<longleftrightarrow> 4096 < sz \<and> sz \<le> 8192)
    \<and> (get_list_index sz = 9 \<longleftrightarrow> 8192 < sz \<and> sz \<le> 16384)
    \<and> (get_list_index sz = 10 \<longleftrightarrow> 16384 < sz \<and> sz \<le> 32768)
    \<and> (get_list_index sz = 11 \<longleftrightarrow> 32768 < sz \<and> sz \<le> 65536)
    \<and> (get_list_index sz = 12 \<longleftrightarrow> 65536 < sz \<and> sz \<le> 131072)
    \<and> (get_list_index sz = 13 \<longleftrightarrow> 131072 < sz \<and> sz \<le> 262144)
    \<and> (get_list_index sz = 14 \<longleftrightarrow> 262144 < sz)"
proof -
  have m: "sz < 32 \<longleftrightarrow> sz = 16" using assms by (rule mult16_lt32)
  have n: "unat sz = 16 \<longleftrightarrow> unat sz < 32"
    using m by (simp add: word_less_nat_alt word_unat_eq_iff)
  show ?thesis
    unfolding get_list_index_def mm_consts
    by (simp add: word_le_nat_alt word_less_nat_alt word_unat_eq_iff n)
qed

theorem get_list_index_classes_witness:
  "(48::word_t) \<noteq> 0 \<and> 16 dvd unat (48::word_t) \<and> get_list_index 48 = 1
     \<and> get_list_index 16 = 0 \<and> get_list_index 262160 = 14"
  using get_list_index_classes [of 48] get_list_index_classes [of 16]
    get_list_index_classes [of 262160]
  by simp

section \<open>Addresses modulo 16\<close>


lemma unat_mod16_add: "unat (x + y :: word_t) mod 16 = (unat x mod 16 + unat y mod 16) mod 16"
proof -
  have "unat (x + y) = (unat x + unat y) mod 2 ^ 64" by (simp add: unat_word_ariths)
  moreover have "(16 :: nat) dvd 2 ^ 64" by simp
  ultimately have "unat (x + y) mod 16 = (unat x + unat y) mod 16"
    by (simp add: mod_mod_cancel)
  then show ?thesis by (simp add: mod_add_eq)
qed

lemma mod16_small:
  fixes n :: nat
  assumes "n < 32"
  shows "n mod 16 = (if n < 16 then n else n - 16)"
proof (cases "n < 16")
  case True
  then show ?thesis by simp
next
  case False
  with assms have "n = (n - 16) + 16" "n - 16 < 16" by simp_all
  then have "n mod 16 = (n - 16) mod 16" by (metis mod_add_self2)
  with False \<open>n - 16 < 16\<close> show ?thesis by simp
qed

lemma mod16_diff_nat:
  fixes a d y :: nat
  assumes "a = (d + y) mod 16" "d < 16" "y < 16"
  shows "d = (a + (16 - y)) mod 16"
proof -
  from assms(2,3) have 1: "d + y < 32" by simp
  have 2: "a + (16 - y) < 32" using assms by simp
  show ?thesis
    using assms mod16_small [OF 1] mod16_small [OF 2] by (simp split: if_splits)
qed

lemma unat_mod16_diff:
  "unat (x - y :: word_t) mod 16 = (unat x mod 16 + (16 - unat y mod 16)) mod 16"
proof -
  have "unat x mod 16 = (unat (x - y) mod 16 + unat y mod 16) mod 16"
    using unat_mod16_add [of "x - y" y] by simp
  then show ?thesis by (rule mod16_diff_nat) simp_all
qed

lemma apart_mod16_8:
  assumes "unat (b - a) mod 16 = 8"
  shows "apart a b"
proof -
  define d where "d = unat (b - a)"
  define q where "q = d div 16"
  have "d mod 16 = 8" using assms by (simp add: d_def)
  then have dq: "d = 16 * q + 8" unfolding q_def by presburger
  have "d < 16 * 1152921504606846976"
    using unsigned_less [of "b - a", where 'a = nat] by (simp add: d_def)
  with dq have "q < 1152921504606846976" by simp
  then have "q + 1 \<le> 1152921504606846976" by simp
  with dq have "8 \<le> d \<and> d \<le> 18446744073709551608" by simp
  then have "apart a (a + (b - a))" by (intro apart_offset) (simp_all add: d_def)
  then show ?thesis by simp
qed

lemma mult16_mod: "(w :: word_t) AND 15 = 0 \<longleftrightarrow> unat w mod 16 = 0"
  by (simp add: mult16_iff [symmetric] dvd_eq_mod_eq_0)

lemma apart_mod16_0:
  assumes "unat (b - a) mod 16 = 0" "b \<noteq> a"
  shows "apart a b"
proof -
  from assms have "apart a (a + (b - a))" by (intro apart_mult16) (simp_all add: mult16_mod)
  then show ?thesis by simp
qed

lemma blk_ptr_add16: "blk_ptr p \<Longrightarrow> unat d mod 16 = 0 \<Longrightarrow> blk_ptr (p + d)"
  by (simp add: blk_ptr_def unat_mod16_add)

lemma blk_ptr_diff16: "blk_ptr p \<Longrightarrow> unat d mod 16 = 0 \<Longrightarrow> blk_ptr (p - d)"
  by (simp add: blk_ptr_def unat_mod16_diff)

lemma get_size_mod16 [simp]: "unat (get_size s b) mod 16 = 0"
  using get_size_mult16 [of s b] by (simp only: mult16_mod)

lemma extract_size_mod16 [simp]: "unat (extract_size w) mod 16 = 0"
  using extract_size_mult16 [of w] by (simp only: mult16_mod)

text \<open>The \<^verbatim>\<open>prev\<close> slot of a list block never overlaps a header.\<close>

lemma prev_slot_apart: "blk_ptr h \<Longrightarrow> blk_ptr b \<Longrightarrow> apart (h + 8) b"
  by (rule apart_mod16_8) (simp add: blk_ptr_def unat_mod16_diff unat_mod16_add)

lemma own_slots_apart: "apart (b + 8) b" "apart (b + 16) b"
  by (simp_all add: apart_def)

lemma slot8_apart_next: "unat d mod 16 = 0 \<Longrightarrow> apart (b + 8) (b + d)"
  by (rule apart_mod16_8) (simp add: unat_mod16_diff unat_mod16_add)

lemma slot16_apart_next: "unat d mod 16 = 0 \<Longrightarrow> d \<noteq> 16 \<Longrightarrow> apart (b + 16) (b + d)"
  by (rule apart_mod16_0) (simp_all add: unat_mod16_diff unat_mod16_add)

section \<open>Inserting a block and finishing a merge\<close>


lemma header_set_seg_list [simp]: "header (set_seg_list s i p) x = header s x"
  by (simp add: header_def set_seg_list_def)

lemma header_set_free_prev: "apart (a + 8) x \<Longrightarrow> header (set_free_prev s a p) x = header s x"
  by (simp add: header_def set_free_prev_def)

lemma header_set_free_next: "apart (a + 16) x \<Longrightarrow> header (set_free_next s a p) x = header s x"
  by (simp add: header_def set_free_next_def)

lemma header_set_next_mini: "apart (a + 8) x \<Longrightarrow> header (set_next_mini s a p) x = header s x"
  by (simp add: header_def set_next_mini_def)

lemma seg_set_free_prev [simp]:
  "segregated_free_list (set_free_prev s a p) = segregated_free_list s"
  by (simp add: set_free_prev_def)

lemma seg_set_free_next [simp]:
  "segregated_free_list (set_free_next s a p) = segregated_free_list s"
  by (simp add: set_free_next_def)

lemma seg_set_next_mini [simp]:
  "segregated_free_list (set_next_mini s a p) = segregated_free_list s"
  by (simp add: set_next_mini_def)

lemma seg_write_block [simp]:
  "segregated_free_list (write_block s a sz al pa pm) = segregated_free_list s"
  by (simp add: write_block_eq set_header_def)

text \<open>
  Putting a block on its list leaves the block's header alone, and the header after the
  block: the list links written are inside the block, or the \<^verbatim>\<open>prev\<close> slot of the old head.
\<close>

lemma insert_keeps_headers:
  assumes b: "blk_ptr b"
    and h: "link_ok (segregated_free_list t (get_list_index (get_size t b)))"
    and x: "x = b \<or> x = b + get_size t b"
  shows "header (insert_normal_or_mini t b) x = header t x"
proof (cases "get_size t b = min_block_size")
  case True
  then have "x = b \<or> x = b + 16" using x by (simp add: mm_consts)
  then have "apart (b + 8) x"
    using own_slots_apart(1) [of b] slot8_apart_next [of 16 b] by auto
  then show ?thesis
    using True
    by (simp add: insert_normal_or_mini_def insert_to_mini_free_list_def Let_def
        header_set_next_mini)
next
  case False
  then have n16: "get_size t b \<noteq> 16" by (simp add: mm_consts)
  have a8: "apart (b + 8) x"
    using x own_slots_apart(1) [of b] slot8_apart_next [of "get_size t b" b] by auto
  have a16: "apart (b + 16) x"
    using x own_slots_apart(2) [of b] slot16_apart_next [of "get_size t b" b] n16 by auto
  have bx: "blk_ptr x" using x b blk_ptr_add16 [of b "get_size t b"] by auto
  define hd where "hd = segregated_free_list t (get_list_index (get_size t b))"
  have ah: "hd \<noteq> NULL \<Longrightarrow> apart (hd + 8) x"
    using h bx by (auto simp: hd_def [symmetric] link_ok_def intro: prev_slot_apart)
  from b have "b \<noteq> NULL" by (auto simp: blk_ptr_def NULL_def)
  then show ?thesis
    using False a8 a16 ah
    by (simp add: insert_normal_or_mini_def insert_to_free_list_def Let_def hd_def [symmetric]
        header_set_free_prev header_set_free_next)
qed

lemma insert_keeps_size:
  assumes "blk_ptr b" "link_ok (segregated_free_list t (get_list_index (get_size t b)))"
  shows "get_size (insert_normal_or_mini t b) b = get_size t b"
  using insert_keeps_headers [OF assms, of b] by (simp add: get_size_def)

text \<open>
  The tail of cases 2 to 4 of \<^verbatim>\<open>coalesce_block\<close>: the merged block is written, put on its
  list, and the header after it gets both flags cleared.
\<close>

lemma merged_successor_flags:
  assumes b: "blk_ptr b" and m: "m AND 15 = 0"
    and h: "link_ok (segregated_free_list t (get_list_index m))"
    and f: "coalesce_finish (insert_normal_or_mini (write_block t b m False pa pm) b) b = (s', b')"
  shows "b' = b \<and> get_size s' b = m \<and> \<not> get_prev_alloc s' (find_next s' b)
    \<and> \<not> get_prev_mini s' (find_next s' b)"
proof -
  define s2 where "s2 = write_block t b m False pa pm"
  define s3 where "s3 = insert_normal_or_mini s2 b"
  define nb where "nb = b + m"
  define s4 where "s4 = update_block s3 nb (get_size s3 nb) (get_alloc s3 nb) False False"
  have g2: "get_size s2 b = m" by (simp add: s2_def get_size_def m extract_size_idem)
  have "link_ok (segregated_free_list s2 (get_list_index (get_size s2 b)))"
    using h by (simp add: g2) (simp add: s2_def)
  with b have g3: "get_size s3 b = m" unfolding s3_def using g2 by (simp add: insert_keeps_size)
  have e: "s' = s4" "b' = b"
    using f by (auto simp: coalesce_finish_def Let_def s4_def s3_def s2_def find_next_def
        g3 [unfolded s3_def s2_def] nb_def)
  have g4: "get_size s4 b = m"
    unfolding s4_def nb_def using get_size_update_next [OF m, of s3 b] g3 by simp
  have "\<not> get_prev_alloc s4 nb" "\<not> get_prev_mini s4 nb"
    by (simp_all add: s4_def get_prev_alloc_def get_prev_mini_def)
  then show ?thesis by (simp add: e find_next_def g4 nb_def)
qed

section \<open>Coalescing\<close>


lemma extract_size_16 [simp]: "extract_size 16 = 16"
  by (simp add: extract_size_idem)

lemma get_list_index_less: "get_list_index sz < SEG_LIST_NUM"
  by (simp add: get_list_index_def SEG_LIST_NUM_def)

lemma heads_ok_link: "heads_ok t \<Longrightarrow> link_ok (segregated_free_list t (get_list_index sz))"
  using get_list_index_less [of sz] by (simp add: heads_ok_def list_all_iff)

lemma find_prev_aligned:
  assumes "blk_ptr block"
  shows "blk_ptr (find_prev s block) \<or> find_prev s block = NULL"
proof -
  have "find_prev s block = block - 16 \<or> find_prev s block = NULL
      \<or> find_prev s block = block - extract_size (load64 (mem s) (block - 8))"
    by (simp add: find_prev_def Let_def find_header_def find_prev_footer_def
        footer_to_header_def mm_consts)
  moreover have "blk_ptr (block - 16)" using assms by (intro blk_ptr_diff16) simp_all
  moreover have "blk_ptr (block - extract_size (load64 (mem s) (block - 8)))"
    using assms by (intro blk_ptr_diff16) simp_all
  ultimately show ?thesis by auto
qed

lemma coalesce_block_cases:
  "coalesce_block s block =
     (if get_prev_alloc s block \<and> get_alloc s (find_next s block)
      then Some (insert_normal_or_mini s block, block)
      else (case unlinked s block of
              None \<Rightarrow> None
            | Some t \<Rightarrow>
                Some (coalesce_finish
                  (insert_normal_or_mini
                    (write_block t (merged_block s block) (merged_size s block) False
                       (get_prev_alloc s (merged_block s block))
                       (get_prev_mini s (merged_block s block)))
                    (merged_block s block))
                  (merged_block s block))))"
  by (simp add: coalesce_block_def unlinked_def merged_block_def merged_size_def Let_def
      split: option.splits)

lemma merged_size_mult16: "merged_size s block AND 15 = 0"
  by (simp add: merged_size_def mult16_add)

lemma merged_size_not_mini:
  assumes "sizes_fit s block" "\<not> (get_prev_alloc s block \<and> get_alloc s (find_next s block))"
  shows "merged_size s block \<noteq> 16"
proof -
  define bs where "bs = get_size s block"
  define ps where "ps = (if get_prev_alloc s block then 0 else get_size s (find_prev s block))"
  define ns where "ns = (if get_alloc s (find_next s block) then 0 else get_size s (find_next s block))"
  have m: "merged_size s block = ps + bs + ns" by (simp add: merged_size_def ps_def bs_def ns_def)
  have d: "16 dvd unat bs" "16 dvd unat ps" "16 dvd unat ns"
    by (simp_all add: bs_def ps_def ns_def mult16_iff)
  from assms(1) have pos: "0 < unat bs" and sum: "unat ps + unat bs + unat ns < 2 ^ 64"
    and pp: "\<not> get_prev_alloc s block \<Longrightarrow> 0 < unat ps"
    and np: "\<not> get_alloc s (find_next s block) \<Longrightarrow> 0 < unat ns"
    by (auto simp: sizes_fit_def Let_def bs_def ps_def ns_def split: if_splits)
  from sum have "unat (ps + bs + ns) = unat ps + unat bs + unat ns"
    by (simp add: unat_word_ariths)
  moreover have "16 \<le> unat bs" using pos d(1) by (auto elim!: dvdE)
  moreover have "16 \<le> unat ps \<or> 16 \<le> unat ns"
    using assms(2) pp np d(2,3) by (auto elim!: dvdE)
  ultimately have "32 \<le> unat (merged_size s block)" unfolding m by linarith
  then show ?thesis by auto
qed

lemma coalesce_successor:
  assumes run: "coalesce_block s block = Some (s', b')"
    and pre: "\<not> get_prev_alloc s (find_next s block)"
      "get_prev_mini s (find_next s block) = (get_size s block = 16)"
    and al: "blk_ptr block"
    and sz: "sizes_fit s block"
    and hd: "case unlinked s block of None \<Rightarrow> True | Some t \<Rightarrow> heads_ok t"
  shows "\<not> get_prev_alloc s' (find_next s' b')
    \<and> get_prev_mini s' (find_next s' b') = (get_size s' b' = 16)"
proof (cases "get_prev_alloc s block \<and> get_alloc s (find_next s block)")
  case True
  then have u: "unlinked s block = Some s" by (simp add: unlinked_def Let_def)
  with hd have h: "link_ok (segregated_free_list s (get_list_index (get_size s block)))"
    by (simp add: heads_ok_link)
  from run True have e: "s' = insert_normal_or_mini s block" "b' = block"
    by (auto simp add: coalesce_block_cases)
  have 1: "header s' block = header s block"
    unfolding e using al h by (rule insert_keeps_headers) simp
  have 2: "header s' (block + get_size s block) = header s (block + get_size s block)"
    unfolding e using al h by (rule insert_keeps_headers) simp
  from 1 have g: "get_size s' block = get_size s block" by (simp add: get_size_def)
  show ?thesis
    using pre by (simp add: e(2) find_next_def g get_prev_alloc_def get_prev_mini_def 2)
next
  case False
  with run obtain t where u: "unlinked s block = Some t"
    and f: "coalesce_finish
        (insert_normal_or_mini
          (write_block t (merged_block s block) (merged_size s block) False
             (get_prev_alloc s (merged_block s block)) (get_prev_mini s (merged_block s block)))
          (merged_block s block))
        (merged_block s block) = (s', b')"
    by (auto simp: coalesce_block_cases split: option.splits)
  from u hd have h: "link_ok (segregated_free_list t (get_list_index (merged_size s block)))"
    by (simp add: heads_ok_link)
  have "merged_block s block \<noteq> NULL"
    using u False al
    by (auto simp: merged_block_def unlinked_def Let_def blk_ptr_def NULL_def split: if_splits)
  then have b: "blk_ptr (merged_block s block)"
    using find_prev_aligned [OF al, of s] al by (auto simp: merged_block_def)
  from merged_successor_flags [OF b merged_size_mult16 h f]
  have "b' = merged_block s block" "get_size s' b' = merged_size s block"
    "\<not> get_prev_alloc s' (find_next s' b')" "\<not> get_prev_mini s' (find_next s' b')"
    by simp_all
  moreover have "merged_size s block \<noteq> 16" using sz False by (rule merged_size_not_mini)
  ultimately show ?thesis by simp
qed

text \<open>Freeing a mini block between two allocated blocks, with no assumption on the heap.\<close>

lemma free_mini_between_allocated:
  assumes "bp \<noteq> NULL" "get_size s (bp - 8) = 16" "get_prev_alloc s (bp - 8)"
    "get_alloc s (bp + 8)"
  shows "\<exists>s'. free s bp = Some s' \<and> get_prev_mini s' (bp + 8) \<and> \<not> get_prev_alloc s' (bp + 8)
    \<and> get_size s' (bp - 8) = 16"
proof -
  define block where "block = bp - 8"
  define nb where "nb = block + 16"
  define s1 where "s1 = write_block s block 16 False True (get_prev_mini s block)"
  define s2 where "s2 = update_block s1 nb (get_size s1 nb) (get_alloc s1 nb) False True"
  have nbp: "nb = bp + 8" by (simp add: nb_def block_def)
  have h1: "header s1 block = pack 16 False True (get_prev_mini s block)" by (simp add: s1_def)
  have a: "apart block nb" "apart nb block"
    using apart_mult16 [of 16 block] by (simp_all add: nb_def apart_sym)
  have hn1: "header s1 nb = header s nb"
    unfolding s1_def by (simp add: write_block_eq mm_consts header_set_apart a)
  have fm: "free_mark s block = s2"
    using assms(2,3)
    by (simp add: free_mark_def Let_def block_def [symmetric] s1_def [symmetric] find_next_def
        get_size_def h1 mm_consts nb_def [symmetric] s2_def)
  have h2: "header s2 block = pack 16 False True (get_prev_mini s block)"
    unfolding s2_def using a h1 by (simp add: header_update_apart)
  have hn2: "header s2 nb = pack (get_size s nb) (get_alloc s nb) False True"
    by (simp add: s2_def get_size_def get_alloc_def hn1)
  have g2: "get_size s2 block = 16" by (simp add: get_size_def h2)
  have c1: "get_prev_alloc s2 block \<and> get_alloc s2 (find_next s2 block)"
    using assms(4) by (simp add: get_prev_alloc_def get_alloc_def h2 find_next_def g2
        nb_def [symmetric] hn2) (simp add: nbp)
  define s3 where "s3 = insert_normal_or_mini s2 block"
  have co: "coalesce_block s2 block = Some (s3, block)"
    using c1 by (simp add: coalesce_block_cases s3_def)
  have a8: "apart (block + 8) nb" "apart (block + 8) block"
    using slot8_apart_next [of 16 block] own_slots_apart(1) [of block] by (simp_all add: nb_def)
  have h3: "header s3 nb = header s2 nb" "header s3 block = header s2 block"
    unfolding s3_def using g2 a8
    by (simp_all add: insert_normal_or_mini_def insert_to_mini_free_list_def Let_def mm_consts
        header_set_next_mini)
  have "free s bp = Some s3"
    using assms(1) by (simp add: free_def Let_def payload_to_header_def block_def [symmetric] fm co)
  moreover have "get_prev_mini s3 (bp + 8)" "\<not> get_prev_alloc s3 (bp + 8)"
    by (simp_all add: nbp [symmetric] get_prev_mini_def get_prev_alloc_def h3 hn2)
  moreover have "get_size s3 (bp - 8) = 16"
    by (simp add: block_def [symmetric] get_size_def h3 h2)
  ultimately show ?thesis by blast
qed

section \<open>The header after a coalesced block\<close>

lemmas wf_simps = blk_ptr_def link_ok_def heads_ok_def unlinked_def sizes_fit_def upt_rec


text \<open>
  C1. When \<^verbatim>\<open>free\<close> or \<^verbatim>\<open>extend_heap\<close> has marked a block free and \<^verbatim>\<open>coalesce_block\<close> has
  merged it with its free neighbours, the header after the merged block has \<^verbatim>\<open>prev_alloc\<close>
  clear and \<^verbatim>\<open>prev_mini\<close> set exactly when the merged block has size 16. This holds on a heap
  that is well formed around the block: the block's header is at an address that is 8 modulo
  16, the block and its free neighbours have sizes that are not 0 and do not wrap around the
  address space, and every list head is \<^verbatim>\<open>NULL\<close> or such an address once the free neighbours
  are off their lists. In particular, freeing a block of 16 bytes between two allocated
  blocks sets \<^verbatim>\<open>prev_mini\<close> in the header after it, on any heap.
\<close>

theorem coalesce_successor_flags:
  "(bp \<noteq> NULL \<and> block = payload_to_header bp \<and> t = free_mark s block
      \<and> coalesce_block t block = Some (s', b')
      \<and> blk_ptr block \<and> sizes_fit t block
      \<and> (case unlinked t block of None \<Rightarrow> True | Some u \<Rightarrow> heads_ok u)
    \<longrightarrow> free s bp = Some s' \<and> \<not> get_prev_alloc s' (find_next s' b')
        \<and> get_prev_mini s' (find_next s' b') = (get_size s' b' = 16))
   \<and> (mem_sbrk s (round_up sz dsize) = Some (brk, s1)
      \<and> extend_heap_write s1 brk (round_up sz dsize) = (t1, block1)
      \<and> coalesce_block t1 block1 = Some (s1', b1')
      \<and> blk_ptr block1 \<and> sizes_fit t1 block1
      \<and> (case unlinked t1 block1 of None \<Rightarrow> True | Some u \<Rightarrow> heads_ok u)
    \<longrightarrow> extend_heap s sz = Some (s1', b1') \<and> \<not> get_prev_alloc s1' (find_next s1' b1')
        \<and> get_prev_mini s1' (find_next s1' b1') = (get_size s1' b1' = 16))
   \<and> (p \<noteq> NULL \<and> get_size s (p - 8) = 16 \<and> get_prev_alloc s (p - 8) \<and> get_alloc s (p + 8)
    \<longrightarrow> (\<exists>s2. free s p = Some s2 \<and> get_prev_mini s2 (p + 8) \<and> \<not> get_prev_alloc s2 (p + 8)
          \<and> get_size s2 (p - 8) = 16))"
proof (intro conjI impI; (elim conjE)?)
  assume a: "bp \<noteq> NULL" "block = payload_to_header bp" "t = free_mark s block"
    "coalesce_block t block = Some (s', b')" "blk_ptr block" "sizes_fit t block"
    "case unlinked t block of None \<Rightarrow> True | Some u \<Rightarrow> heads_ok u"
  from a(1-4) show "free s bp = Some s'" by (simp add: free_def Let_def)
  have pre: "\<not> get_prev_alloc t (find_next t block)"
    "get_prev_mini t (find_next t block) = (get_size t block = 16)"
    unfolding a(3) using free_mark_prev_mini [of s block] by blast+
  from coalesce_successor [OF a(4) pre a(5,6,7)]
  show "\<not> get_prev_alloc s' (find_next s' b')"
    "get_prev_mini s' (find_next s' b') = (get_size s' b' = 16)"
    by simp_all
next
  assume a: "mem_sbrk s (round_up sz dsize) = Some (brk, s1)"
    "extend_heap_write s1 brk (round_up sz dsize) = (t1, block1)"
    "coalesce_block t1 block1 = Some (s1', b1')" "blk_ptr block1" "sizes_fit t1 block1"
    "case unlinked t1 block1 of None \<Rightarrow> True | Some u \<Rightarrow> heads_ok u"
  from a(1-3) show "extend_heap s sz = Some (s1', b1')" by (simp add: extend_heap_def Let_def)
  have "round_up sz dsize AND 15 = 0"
    using round_up_16_dvd [of sz] by (simp add: mult16_iff mm_consts)
  from extend_heap_write_prev_mini [OF this a(2)]
  have pre: "\<not> get_prev_alloc t1 (find_next t1 block1)"
    "get_prev_mini t1 (find_next t1 block1) = (get_size t1 block1 = 16)"
    by blast+
  from coalesce_successor [OF a(3) pre a(4,5,6)]
  show "\<not> get_prev_alloc s1' (find_next s1' b1')"
    "get_prev_mini s1' (find_next s1' b1') = (get_size s1' b1' = 16)"
    by simp_all
next
  assume "p \<noteq> NULL" "get_size s (p - 8) = 16" "get_prev_alloc s (p - 8)" "get_alloc s (p + 8)"
  then show "\<exists>s2. free s p = Some s2 \<and> get_prev_mini s2 (p + 8) \<and> \<not> get_prev_alloc s2 (p + 8)
          \<and> get_size s2 (p - 8) = 16"
    by (rule free_mini_between_allocated)
qed

theorem coalesce_successor_flags_witness:
  "(4144 :: addr) \<noteq> NULL \<and> blk_ptr 4136 \<and> sizes_fit (free_mark heap2 4136) 4136
   \<and> map_option snd (coalesce_block (free_mark heap2 4136) 4136) = Some 4104
   \<and> map_option (\<lambda>u. heads_ok u) (unlinked (free_mark heap2 4136) 4136) = Some True
   \<and> map_option (\<lambda>s'. (get_size s' 4104, get_prev_alloc s' 4168, get_prev_mini s' 4168))
        (free heap2 4144) = Some (64, False, False)
   \<and> map_option fst (mem_sbrk heap1 (round_up 3000 dsize)) = Some 6160
   \<and> map_option snd (extend_heap heap1 3000) = Some 4104
   \<and> map_option (\<lambda>(s', b'). (get_size s' b', get_prev_alloc s' (find_next s' b'),
        get_prev_mini s' (find_next s' b'))) (extend_heap heap1 3000) = Some (5056, False, False)
   \<and> (4128 :: addr) \<noteq> NULL \<and> get_size heap3 (4128 - 8) = 16 \<and> get_prev_alloc heap3 (4128 - 8)
   \<and> get_alloc heap3 (4128 + 8)
   \<and> map_option (\<lambda>s'. (get_prev_mini s' 4136, get_prev_alloc s' 4136)) (free heap3 4128)
        = Some (True, False)"
proof -
  \<comment> \<open>\<^verbatim>\<open>free\<close>, with the block before free: case 2\<close>
  define t where "t = free_mark heap2 4136"
  have f1: "(4144 :: addr) \<noteq> NULL" "blk_ptr 4136" "4136 = payload_to_header 4144"
    by (simp_all add: NULL_def blk_ptr_def payload_to_header_def)
  have f2: "sizes_fit t 4136"
    unfolding t_def heap2_def by (simp add: wf_simps run_simps)
  have f3: "\<exists>s'. coalesce_block t 4136 = Some (s', 4104) \<and> get_size s' 4104 = 64"
    unfolding t_def heap2_def by (simp add: run_simps)
  then obtain s' where f4: "coalesce_block t 4136 = Some (s', 4104)"
    and f7: "get_size s' 4104 = 64" by blast
  have f5: "map_option (\<lambda>u. heads_ok u) (unlinked t 4136) = Some True"
    unfolding t_def heap2_def by (simp add: wf_simps run_simps)
  then have f6: "case unlinked t 4136 of None \<Rightarrow> True | Some u \<Rightarrow> heads_ok u"
    by (auto split: option.splits)
  from coalesce_successor_flags [THEN conjunct1, rule_format, of 4144 4136 t heap2 s' 4104]
    f1 f2 f4 f6 t_def
  have f8: "free heap2 4144 = Some s'" "\<not> get_prev_alloc s' (find_next s' 4104)"
    "get_prev_mini s' (find_next s' 4104) = (get_size s' 4104 = 16)"
    by simp_all
  have f9: "find_next s' 4104 = 4168" by (simp add: find_next_def f7)
  \<comment> \<open>\<^verbatim>\<open>extend_heap\<close>, with the last block free: case 2\<close>
  have e1: "mem_sbrk heap1 (round_up 3000 dsize) = Some (6160, heap1\<lparr>mem_brk := 9168\<rparr>)"
    unfolding heap1_def by (simp add: run_simps)
  obtain t1 b1 where e2: "extend_heap_write (heap1\<lparr>mem_brk := 9168\<rparr>) 6160 (round_up 3000 dsize) = (t1, b1)"
    by (cases "extend_heap_write (heap1\<lparr>mem_brk := 9168\<rparr>) 6160 (round_up 3000 dsize)")
  have e3: "b1 = 6152" using e2 by (auto simp: extend_heap_write_def Let_def payload_to_header_def)
  have e4: "t1 = fst (extend_heap_write (heap1\<lparr>mem_brk := 9168\<rparr>) 6160 (round_up 3000 dsize))"
    using e2 by simp
  have e5: "blk_ptr b1" by (simp add: e3 blk_ptr_def)
  have e6: "sizes_fit t1 b1"
    unfolding e3 e4 heap1_def by (simp add: wf_simps run_simps)
  have "\<exists>s'. coalesce_block t1 b1 = Some (s', 4104) \<and> get_size s' 4104 = 5056"
    unfolding e3 e4 heap1_def by (simp add: run_simps)
  then obtain s1' where e7: "coalesce_block t1 b1 = Some (s1', 4104)"
    and e9: "get_size s1' 4104 = 5056" by blast
  have "map_option (\<lambda>u. heads_ok u) (unlinked t1 b1) = Some True"
    unfolding e3 e4 heap1_def by (simp add: wf_simps run_simps)
  then have e8: "case unlinked t1 b1 of None \<Rightarrow> True | Some u \<Rightarrow> heads_ok u"
    by (auto split: option.splits)
  from coalesce_successor_flags [THEN conjunct2, THEN conjunct1, rule_format,
      of heap1 3000 6160 "heap1\<lparr>mem_brk := 9168\<rparr>" t1 b1 s1' 4104] e1 e2 e5 e6 e7 e8
  have e10: "extend_heap heap1 3000 = Some (s1', 4104)"
    "\<not> get_prev_alloc s1' (find_next s1' 4104)"
    "get_prev_mini s1' (find_next s1' 4104) = (get_size s1' 4104 = 16)"
    by simp_all
  \<comment> \<open>a mini block between two allocated blocks\<close>
  have m1: "(4128 :: addr) \<noteq> NULL" "get_size heap3 (4128 - 8) = 16"
    "get_prev_alloc heap3 (4128 - 8)" "get_alloc heap3 (4128 + 8)"
    unfolding heap3_def by (simp_all add: run_simps)
  from coalesce_successor_flags [THEN conjunct2, THEN conjunct2, rule_format, of 4128 heap3] m1
  obtain s2 where m2: "free heap3 4128 = Some s2" "get_prev_mini s2 (4128 + 8)"
    "\<not> get_prev_alloc s2 (4128 + 8)"
    by blast
  show ?thesis
    using f1 f2 f4 f5 f7 f8 f9 e1 e9 e10 m1 m2 by (simp add: t_def)
qed

section \<open>The bounded best-fit search (C4)\<close>

text \<open>
  \<^verbatim>\<open>find_fit\<close> counts the entries it has passed in \<^verbatim>\<open>cont\<close>, compares the count with
  \<^verbatim>\<open>SEARCH_LIMIT\<close> after it has examined an entry, and resets it only when that comparison
  ends a scan. The scan of one list therefore reaches the entry at which \<^verbatim>\<open>cont\<close> is 11, the
  twelfth when the count started at 0.
\<close>

subsection \<open>The search on a list of twelve blocks\<close>

lemma chain_numeral:
  "chain s (numeral k) b =
     (if b = NULL then [] else b # chain s (pred_numeral k) (free_next s b))"
  by (simp add: numeral_eq_Suc)

lemma fit_heap_sizes:
  "get_size fit_heap 4104 = 32"
  "get_size fit_heap 4168 = 32"
  "get_size fit_heap 4232 = 32"
  "get_size fit_heap 4296 = 32"
  "get_size fit_heap 4360 = 32"
  "get_size fit_heap 4424 = 32"
  "get_size fit_heap 4488 = 32"
  "get_size fit_heap 4552 = 32"
  "get_size fit_heap 4616 = 32"
  "get_size fit_heap 4680 = 32"
  "get_size fit_heap 4744 = 32"
  "get_size fit_heap 4808 = 64"
  unfolding fit_heap_def by (simp_all add: get_size_def header_def extract_size_def size_mask_def apart_def)

lemma fit_heap_links:
  "free_next fit_heap 4104 = 4168"
  "free_next fit_heap 4168 = 4232"
  "free_next fit_heap 4232 = 4296"
  "free_next fit_heap 4296 = 4360"
  "free_next fit_heap 4360 = 4424"
  "free_next fit_heap 4424 = 4488"
  "free_next fit_heap 4488 = 4552"
  "free_next fit_heap 4552 = 4616"
  "free_next fit_heap 4616 = 4680"
  "free_next fit_heap 4680 = 4744"
  "free_next fit_heap 4744 = 4808"
  "free_next fit_heap 4808 = 0"
  unfolding fit_heap_def by (simp_all add: free_next_def apart_def)

lemma fit_heap_heads:
  "segregated_free_list fit_heap i = (if i = 1 then 4104 else NULL)"
  by (simp add: fit_heap_def)

lemmas search_simps = find_fit_def find_fit_spec_def find_fit_scan.simps find_fit_lists.simps
  get_list_index_def mm_consts Let_def chain_numeral upt_rec

subsection \<open>What the scan of the entries keeps\<close>

text \<open>
  When the scan of a list of entries carries on, the surplus it carries is the least one
  among the entries that fit and the surplus it started with, and the block it carries is
  one with that surplus; when it returns, it returns an entry that fits with a surplus of
  at most \<^verbatim>\<open>CLOSE_ENOUGH\<close>.
\<close>

lemma scan_entries_least:
  assumes "scan_entries s asize es (best, least) = Inr (best', least')"
  shows "least' \<le> least
     \<and> (\<forall>e \<in> set es. asize \<le> get_size s e \<longrightarrow> least' \<le> get_size s e - asize)
     \<and> (if least' < least
         then best' \<in> set es \<and> asize \<le> get_size s best' \<and> get_size s best' - asize = least'
         else best' = best)"
  using assms
proof (induction es arbitrary: best least)
  case Nil
  then show ?case by simp
next
  case (Cons e es)
  show ?case
  proof (cases "asize \<le> get_size s e")
    case False
    with Cons.prems have "scan_entries s asize es (best, least) = Inr (best', least')" by simp
    from Cons.IH [OF this] False show ?thesis by auto
  next
    case True
    define surplus where "surplus = get_size s e - asize"
    show ?thesis
    proof (cases "surplus < least")
      case less: True
      with Cons.prems True
      have "scan_entries s asize es (e, surplus) = Inr (best', least')"
        by (simp add: Let_def surplus_def split: if_splits)
      from Cons.IH [OF this] less True show ?thesis
        by (auto simp: surplus_def split: if_splits)
    next
      case False
      with Cons.prems True
      have "scan_entries s asize es (best, least) = Inr (best', least')"
        by (simp add: Let_def surplus_def split: if_splits)
      from Cons.IH [OF this] False True show ?thesis
        by (auto simp: surplus_def split: if_splits)
    qed
  qed
qed

lemma scan_entries_close:
  assumes "scan_entries s asize es (best, least) = Inl r" "CLOSE_ENOUGH < least"
  shows "r \<in> set es \<and> asize \<le> get_size s r \<and> get_size s r - asize \<le> CLOSE_ENOUGH"
  using assms
proof (induction es arbitrary: best least)
  case Nil
  then show ?case by simp
next
  case (Cons e es)
  show ?case
  proof (cases "asize \<le> get_size s e")
    case False
    with Cons.prems have "scan_entries s asize es (best, least) = Inl r" by simp
    from Cons.IH [OF this Cons.prems(2)] show ?thesis by simp
  next
    case True
    define surplus where "surplus = get_size s e - asize"
    show ?thesis
    proof (cases "surplus < least")
      case less: True
      show ?thesis
      proof (cases "surplus \<le> CLOSE_ENOUGH")
        case True
        with Cons.prems less \<open>asize \<le> get_size s e\<close> show ?thesis
          by (simp add: Let_def surplus_def)
      next
        case False
        with Cons.prems less True
        have "scan_entries s asize es (e, surplus) = Inl r"
          by (simp add: Let_def surplus_def)
        from Cons.IH [OF this] False show ?thesis by (simp add: not_le)
      qed
    next
      case False
      with Cons.prems True
      have "scan_entries s asize es (best, least) = Inl r"
        by (simp add: Let_def surplus_def not_le [symmetric] split: if_splits)
      from Cons.IH [OF this Cons.prems(2)] show ?thesis by simp
    qed
  qed
qed

subsection \<open>The loops of the source examine the entries of \<open>examined\<close>\<close>

lemma length_chain: "length (chain s n b) \<le> n"
  by (induction n arbitrary: b) auto

lemma scan_refines_n:
  assumes "n = SEARCH_LIMIT + 2 - cont" "cont \<le> SEARCH_LIMIT + 1"
  shows "find_fit_scan s asize b best least cont =
     (case scan_entries s asize (chain s n b) (best, least) of
        Inl r \<Rightarrow> Inl r
      | Inr (best', least') \<Rightarrow>
          Inr (best', least',
               if length (chain s n b) = n then 0 else cont + length (chain s n b)))"
  using assms
proof (induction s asize b best least cont arbitrary: n rule: find_fit_scan.induct)
  case (1 s asize b best least cont)
  from "1.prems" obtain k where k: "n = Suc k" and k2: "k = SEARCH_LIMIT + 1 - cont"
    by (cases n) (simp_all add: SEARCH_LIMIT_def)
  show ?case
  proof (cases "b = NULL")
    case True
    then show ?thesis by (subst find_fit_scan.simps) (simp add: k)
  next
    case nn: False
    define surplus where "surplus = get_size s b - asize"
    define best' where
      "best' = (if asize \<le> get_size s b \<and> surplus < least then b else best)"
    define least' where
      "least' = (if asize \<le> get_size s b \<and> surplus < least then surplus else least)"
    define stop where "stop = (asize \<le> get_size s b \<and> least' \<le> CLOSE_ENOUGH)"
    define es where "es = chain s k (free_next s b)"
    have ch: "chain s n b = b # es" using nn by (simp add: k es_def)
    have ff: "find_fit_scan s asize b best least cont =
        (if stop then Inl best'
         else if cont > SEARCH_LIMIT then Inr (best', least', 0)
         else find_fit_scan s asize (free_next s b) best' least' (cont + 1))"
      using nn
      by (subst find_fit_scan.simps)
         (simp add: Let_def surplus_def [symmetric] best'_def least'_def stop_def)
    have se: "scan_entries s asize (b # es) (best, least) =
        (if stop then Inl best' else scan_entries s asize es (best', least'))"
      by (simp add: Let_def surplus_def [symmetric] best'_def least'_def stop_def)
    show ?thesis
    proof (cases stop)
      case True
      then show ?thesis unfolding ff ch se by simp
    next
      case ns: False
      show ?thesis
      proof (cases "cont > SEARCH_LIMIT")
        case True
        with k2 "1.prems" have "k = 0" by simp
        then have "es = []" by (simp add: es_def)
        then show ?thesis using ns True unfolding ff ch se by (simp add: k \<open>k = 0\<close>)
      next
        case False
        then have c: "cont + 1 \<le> SEARCH_LIMIT + 1" by simp
        have k': "k = SEARCH_LIMIT + 2 - (cont + 1)" using k2 by simp
        have ih: "find_fit_scan s asize (free_next s b) best' least' (cont + 1) =
            (case scan_entries s asize es (best', least') of
               Inl r \<Rightarrow> Inl r
             | Inr (best'', least'') \<Rightarrow>
                 Inr (best'', least'',
                      if length es = k then 0 else cont + 1 + length es))"
        proof (cases "asize \<le> get_size s b")
          case fits: True
          have b1: "best' = (if surplus < least then b else best)"
            and l1: "least' = (if surplus < least then surplus else least)"
            using fits by (simp_all add: best'_def least'_def)
          from ns fits have far: "\<not> least' \<le> CLOSE_ENOUGH" by (simp add: stop_def)
          show ?thesis
            unfolding es_def
            using "1.IH"(1) [OF nn fits surplus_def b1 l1 far False k' c] .
        next
          case nofit: False
          then have "best' = best" "least' = least" by (simp_all add: best'_def least'_def)
          then show ?thesis
            unfolding es_def using "1.IH"(2) [OF nn nofit False k' c] by simp
        qed
        show ?thesis
        proof (cases "scan_entries s asize es (best', least')")
          case (Inl r)
          with ih have "find_fit_scan s asize (free_next s b) best' least' (cont + 1) = Inl r"
            by simp
          then show ?thesis using ns False Inl unfolding ff ch se by (simp add: k)
        next
          case (Inr acc)
          obtain a c where acc: "acc = (a, c)" by (cases acc)
          with ih Inr have "find_fit_scan s asize (free_next s b) best' least' (cont + 1) =
              Inr (a, c, if length es = k then 0 else cont + 1 + length es)"
            by simp
          then show ?thesis using ns False Inr acc unfolding ff ch se by (simp add: k)
        qed
      qed
    qed
  qed
qed

lemma examined_bound: "list_all (\<lambda>es. length es \<le> SEARCH_LIMIT + 2) (examined s is cont)"
proof (induction "is" arbitrary: cont)
  case Nil
  then show ?case by simp
next
  case (Cons i "is")
  have "length (chain s (SEARCH_LIMIT + 2 - cont) (segregated_free_list s i)) \<le> SEARCH_LIMIT + 2"
    using length_chain [of s "SEARCH_LIMIT + 2 - cont" "segregated_free_list s i"] by simp
  with Cons show ?case by (simp add: Let_def)
qed

lemma lists_refine:
  assumes "cont \<le> SEARCH_LIMIT + 1"
  shows "find_fit_lists s asize i best least cont =
    search_buckets s asize (examined s [i..<SEG_LIST_NUM] cont) (best, least)"
  using assms
proof (induction s asize i best least cont rule: find_fit_lists.induct)
  case (1 s asize i best least cont)
  show ?case
  proof (cases "i < SEG_LIST_NUM")
    case False
    then show ?thesis by (subst find_fit_lists.simps) simp
  next
    case True
    define n where "n = SEARCH_LIMIT + 2 - cont"
    define es where "es = chain s n (segregated_free_list s i)"
    define cont' where "cont' = (if length es = n then 0 else cont + length es)"
    have up: "[i..<SEG_LIST_NUM] = i # [i + 1..<SEG_LIST_NUM]"
      using True by (simp add: upt_conv_Cons)
    have ex: "examined s [i..<SEG_LIST_NUM] cont = es # examined s [i + 1..<SEG_LIST_NUM] cont'"
      unfolding up by (simp add: Let_def es_def n_def cont'_def)
    have sc: "find_fit_scan s asize (segregated_free_list s i) best least cont =
      (case scan_entries s asize es (best, least) of
         Inl r \<Rightarrow> Inl r
       | Inr (best', least') \<Rightarrow> Inr (best', least', cont'))"
      unfolding es_def cont'_def using n_def "1.prems" by (rule scan_refines_n)
    have "length es \<le> n" unfolding es_def by (rule length_chain)
    then have c': "cont' \<le> SEARCH_LIMIT + 1"
      using "1.prems" by (auto simp: cont'_def n_def)
    show ?thesis
    proof (cases "scan_entries s asize es (best, least)")
      case (Inl r)
      then show ?thesis
        using True by (subst find_fit_lists.simps) (simp add: sc ex)
    next
      case (Inr acc)
      obtain best' least' where acc: "acc = (best', least')" by (cases acc)
      have f: "find_fit_scan s asize (segregated_free_list s i) best least cont
          = Inr (best', least', cont')"
        by (simp add: sc Inr acc)
      have "find_fit_lists s asize (i + 1) best' least' cont' =
          search_buckets s asize (examined s [i + 1..<SEG_LIST_NUM] cont') (best', least')"
        using "1.IH" [OF True f refl refl c'] .
      then show ?thesis
        using True by (subst find_fit_lists.simps) (simp add: f ex Inr acc)
    qed
  qed
qed

text \<open>
  Claim C4, with the number of entries the source examines. \<^verbatim>\<open>find_fit(asize)\<close> is the
  best-fit search over the buckets from that of \<open>asize\<close> to 14 in which the entries examined
  of each bucket are a prefix of its list of at most \<^verbatim>\<open>SEARCH_LIMIT + 2\<close>, that is 12, entries:
  the search keeps the block with the least \<open>size - asize\<close> among the fitting blocks seen,
  returns it as soon as that least surplus is at most \<^verbatim>\<open>CLOSE_ENOUGH\<close>, carries the best so
  far to the next bucket otherwise, and returns the best so far (possibly null) at the end.
  A request of bucket 0 is answered by the head of list 0 when that list is not empty.
\<close>

theorem find_fit_bounded_search:
  "find_fit s asize = find_fit_bounded s asize
   \<and> list_all (\<lambda>es. length es \<le> SEARCH_LIMIT + 2)
        (examined s [get_list_index asize..<SEG_LIST_NUM] 0)"
proof
  show "find_fit s asize = find_fit_bounded s asize"
    by (simp add: find_fit_def find_fit_bounded_def Let_def lists_refine)
  show "list_all (\<lambda>es. length es \<le> SEARCH_LIMIT + 2)
        (examined s [get_list_index asize..<SEG_LIST_NUM] 0)"
    by (rule examined_bound)
qed

text \<open>
  Claim C4 as it is stated, with at most \<^verbatim>\<open>SEARCH_LIMIT\<close> entries of a bucket examined, fails
  on \<open>fit_heap\<close> for a request of 64 bytes: list 1 holds eleven blocks of 32 bytes and then
  one of 64 bytes. The search over the first ten entries of each bucket finds nothing; the
  source reaches the twelfth entry and returns it.
\<close>

theorem find_fit_limit_counterexample:
  "find_fit fit_heap 64 = 4808 \<and> find_fit_spec fit_heap 64 = NULL
   \<and> find_fit fit_heap 64 \<noteq> find_fit_spec fit_heap 64
   \<and> chain fit_heap 12 (segregated_free_list fit_heap 1) ! 11 = 4808
   \<and> map (get_size fit_heap) (chain fit_heap 12 (segregated_free_list fit_heap 1))
       = [32, 32, 32, 32, 32, 32, 32, 32, 32, 32, 32, 64]"
  by (simp add: search_simps fit_heap_sizes fit_heap_links fit_heap_heads)

section \<open>Zeroed allocation\<close>





subsection \<open>Where the payload of \<^verbatim>\<open>malloc\<close> lies\<close>

text \<open>
  A request \<open>n\<close> with \<open>n + 23 < 2 ^ 64\<close> does not wrap in the adjusted size, which is then at
  least \<open>n + 8\<close>. The \<open>n\<close> bytes of the payload lie in the arena when the block that
  \<^verbatim>\<open>malloc\<close> places does: a block that \<^verbatim>\<open>find_fit\<close> found has at least the adjusted size, and
  the block that \<^verbatim>\<open>extend_heap\<close> returns ends at the new break.
\<close>

lemma place_in_arena:
  assumes p: "malloc_place s block asize = Some (s1, bp)"
    and lo: "unat (mem_start_brk s) \<le> unat block + 8"
    and hi: "unat block + unat asize \<le> unat (mem_brk s)"
    and n: "unat n + 8 \<le> unat asize"
  shows "in_arena s1 bp n"
proof -
  have "same_arena s s1" using p same_arena_refl by (rule same_arena_place)
  then have b: "mem_start_brk s1 = mem_start_brk s" "mem_brk s1 = mem_brk s"
    by (simp_all add: same_arena_def)
  have bp: "bp = block + 8"
    using p by (auto simp: malloc_place_def Let_def header_to_payload_def split: option.splits)
  have "unat (mem_brk s) < 2 ^ 64" using unsigned_less [of "mem_brk s", where 'a = nat] by simp
  with hi n have "unat block + 8 < 2 ^ 64" by simp
  then have u: "unat (block + 8) = unat block + 8" by (simp add: unat_word_ariths)
  show ?thesis using lo hi n by (simp add: in_arena_def b bp u)
qed






lemma extend_heap_no_wrap:
  assumes "extend_heap s sz = Some (s', b)" "b \<noteq> NULL"
  shows "unat (mem_brk s') = unat (mem_brk s) + unat (round_up sz dsize)"
proof -
  from assms have "mem_sbrk s (round_up sz dsize) \<noteq> None"
    by (cases "mem_sbrk s (round_up sz dsize)") (simp_all add: extend_heap_def Let_def)
  then have "unat (mem_brk s) + unat (round_up sz dsize) \<le> unat (mem_max_addr s)"
    by (auto simp: mem_sbrk_def split: if_splits)
  moreover have "unat (mem_max_addr s) < 2 ^ 64"
    using unsigned_less [of "mem_max_addr s", where 'a = nat] by simp
  ultimately have "unat (mem_brk s + round_up sz dsize)
      = unat (mem_brk s) + unat (round_up sz dsize)"
    by (simp add: unat_word_ariths)
  then show ?thesis using extend_heap_grows [OF assms] by simp
qed

lemma malloc_extend_in_arena:
  assumes init: "heap_start s \<noteq> NULL" and n0: "n \<noteq> 0" and nw: "unat n + 23 < 2 ^ 64"
    and nf: "find_fit s (malloc_asize n) = NULL"
    and e: "extend_heap s (max_sz (malloc_asize n) chunksize) = Some (s', block)" "block \<noteq> NULL"
    and lo: "unat (mem_start_brk s') \<le> unat block + 8"
    and hi: "unat block + 8 \<le> unat (mem_brk s)"
    and m: "malloc s n = Some (s1, bp)"
  shows "in_arena s1 bp n"
proof -
  have as: "unat n + 8 \<le> unat (malloc_asize n)"
  proof (cases "8 < n")
    case True
    then show ?thesis using malloc_asize_rounds [OF True nw] by simp
  next
    case False
    then have "n \<le> 8" by (simp add: not_less)
    then have "unat n \<le> 8" by (simp add: word_le_nat_alt)
    moreover from \<open>n \<le> 8\<close> have "malloc_asize n = 16" by (simp add: malloc_asize_def mm_consts)
    ultimately show ?thesis by simp
  qed
  have "malloc_asize n \<le> max_sz (malloc_asize n) chunksize"
    by (simp add: max_sz_def not_less)
  then have "unat (malloc_asize n) \<le> unat (max_sz (malloc_asize n) chunksize)"
    by (simp add: word_le_nat_alt)
  moreover have "unat (mem_brk s') = unat (mem_brk s) + unat (max_sz (malloc_asize n) chunksize)"
    using extend_heap_no_wrap [OF e] by (simp add: extend_request)
  ultimately have hi': "unat block + unat (malloc_asize n) \<le> unat (mem_brk s')"
    using hi by simp
  from m init n0 nf e have "malloc_place s' block (malloc_asize n) = Some (s1, bp)"
    by (simp add: malloc_def malloc_body_def Let_def)
  from place_in_arena [OF this lo hi' as] show ?thesis .
qed

subsection \<open>The result of \<^verbatim>\<open>calloc\<close>\<close>




end
